theory Spec2Isabelle
  imports Main "HOL-Library.Word"
begin

unbundle bit_operations_syntax

section \<open>The DMX transmit engine (\<^verbatim>\<open>src/Sender.cpp\<close>)\<close>

text \<open>
  The theory embeds the member functions of \<^verbatim>\<open>Sender\<close> as functions on a record of
  its data members. Unsigned 32-bit members are \<open>32 word\<close> (arithmetic wraps), the \<^verbatim>\<open>int\<close>
  arguments of the channel functions are \<open>int\<close> with the two's complement wrap-around written
  out, and every access through a null pointer or outside an array is a fault value.
\<close>

subsection \<open>Machine types\<close>

type_synonym uint8_t = "8 word"
type_synonym uint16_t = "16 word"
type_synonym uint32_t = "32 word"

text \<open>The value a 32-bit \<^verbatim>\<open>int\<close> holds after an arithmetic result \<open>x\<close> wrapped around.\<close>

definition int32 :: "int \<Rightarrow> int" where
  "int32 x = (x + 2 ^ 31) mod 2 ^ 32 - 2 ^ 31"

definition is_int32 :: "int \<Rightarrow> bool" where
  "is_int32 x = (- (2 ^ 31) \<le> x \<and> x < 2 ^ 31)"

text \<open>
  A \<^verbatim>\<open>float\<close> (IEEE 754 binary32): not a number, an infinity with its sign (\<open>True\<close> is
  negative), or the finite value \<open>(-1)^s * m * 2^e\<close> of a sign, a magnitude and an exponent.
\<close>

datatype float32 = NaN | Infinity bool | Finite bool nat int

datatype fault =
    NullPointer
  | IndexOutOfBounds
  | DivisionByZero

subsection \<open>The build target\<close>

text \<open>
  The constants that the preprocessor selects per chip family, the serial format constants
  of the core library's \<^verbatim>\<open>HardwareSerial.h\<close> and the two conditional blocks of the format
  switches are parameters of the model. \<open>has_2stop_parity\<close> stands for the condition
  \<^verbatim>\<open>__MK64FX512__ || __MK66FX1M0__ || KINETISL || __IMXRT1062__ || __IMXRT1052__\<close>,
  \<open>numPorts\<close> for the number of cases of the constructor's switch that the target compiles
  (they are \<open>0 .. numPorts - 1\<close> on every target), \<open>numTxInstances\<close> for the size of
  \<^verbatim>\<open>txInstances\<close> (7 or 8).
\<close>

record target =
  kBreakTimerAdjust :: uint32_t
  kMABTimerAdjust :: uint32_t
  SERIAL_7E1 :: uint32_t
  SERIAL_7O1 :: uint32_t
  SERIAL_8N1 :: uint32_t
  SERIAL_8E1 :: uint32_t
  SERIAL_8O1 :: uint32_t
  SERIAL_8N2 :: uint32_t
  SERIAL_8E2 :: uint32_t
  SERIAL_8O2 :: uint32_t
  SERIAL_9N1 :: uint32_t
  SERIAL_9E1 :: uint32_t
  SERIAL_9O1 :: uint32_t
  has_2stop_parity :: bool
  SERIAL_9BIT_SUPPORT :: bool
  numPorts :: nat
  numTxInstances :: nat

text \<open>
  A Teensy 3.2 (\<^verbatim>\<open>__MK20DX256__\<close>), for the examples: three UARTs, seven registry slots,
  the adjustments 1 and 7, and the format words of its core library, where bit 0 and bit 1
  select the parity, bit 2 the ninth bit, and \<open>0x10\<close> and \<open>0x20\<close> the inversions.
\<close>

definition teensy32 :: target where
  "teensy32 = \<lparr> kBreakTimerAdjust = 1, kMABTimerAdjust = 7,
     SERIAL_7E1 = 0x02, SERIAL_7O1 = 0x03, SERIAL_8N1 = 0x00, SERIAL_8E1 = 0x06,
     SERIAL_8O1 = 0x07, SERIAL_8N2 = 0x04, SERIAL_8E2 = 0x106, SERIAL_8O2 = 0x107,
     SERIAL_9N1 = 0x84, SERIAL_9E1 = 0x8E, SERIAL_9O1 = 0x8F,
     has_2stop_parity = False, SERIAL_9BIT_SUPPORT = False,
     numPorts = 3, numTxInstances = 7 \<rparr>"

definition kDefaultBreakBaud :: uint32_t where
  "kDefaultBreakBaud = 50000"

definition kDefaultBreakFormat :: "target \<Rightarrow> uint32_t" where
  "kDefaultBreakFormat cfg = SERIAL_8N1 cfg"

definition kDefaultBreakTime :: uint32_t where
  "kDefaultBreakTime = 180"

definition kDefaultMABTime :: uint32_t where
  "kDefaultMABTime = 20"

definition kSerialFormatRXINVBit :: uint32_t where
  "kSerialFormatRXINVBit = 0x10"

definition kSerialFormatTXINVBit :: uint32_t where
  "kSerialFormatTXINVBit = 0x20"

text \<open>
  Modelled from the spec: \<^verbatim>\<open>kMaxDMXPacketSize\<close> is declared in the header
  \<^verbatim>\<open>TeensyDMX.h\<close>, which is not among the sources; the spec gives the buffer as exactly 513
  bytes, one start code and 512 channel slots.
\<close>

definition kMaxDMXPacketSize :: int where
  "kMaxDMXPacketSize = 513"

subsection \<open>The instance\<close>

text \<open>
  Modelled from the spec: the enumeration \<^verbatim>\<open>XmitStates\<close> is declared in the absent header.
  \<^verbatim>\<open>Sender.cpp\<close> names \<^verbatim>\<open>kIdle\<close> only; the other values stand for the spec's states
  sending-break, transmitting-data and completing.
\<close>

datatype XmitStates = kIdle | kBreak | kData | kCompleting

text \<open>
  What an instance asks of its collaborators: the calls on \<^verbatim>\<open>sendHandler_\<close>, on
  \<^verbatim>\<open>intervalTimer_\<close> and through the completion function pointer. Their implementations are
  outside \<^verbatim>\<open>Sender.cpp\<close>; the model records each call, in order.
\<close>

datatype call =
    HandlerStart
  | HandlerEnd
  | HandlerPriority
  | HandlerSetActive
  | HandlerSetIRQsEnabled bool
  | HandlerBreakSerialParamsChanged
  | TimerSetPriority
  | TimerEnd
  | DoneTXFunc nat

text \<open>
  The data members, in the order of the constructor's initialiser list. A member
  \<^verbatim>\<open>name_\<close> is the field \<open>name'\<close>. \<open>serialIndex'\<close> and \<open>packetCount'\<close> are members of the
  base class, \<open>sendHandler'\<close> tells whether \<^verbatim>\<open>sendHandler_\<close> is non-null, \<open>doneTXFunc'\<close> is
  the function pointer (\<open>None\<close> is \<^verbatim>\<open>nullptr\<close>), \<open>calls\<close> is the record of the calls made.
\<close>

record sender =
  serialIndex' :: int
  packetCount' :: uint32_t
  sendHandler' :: bool
  began' :: bool
  state' :: XmitStates
  outputBuf' :: "uint8_t list"
  outputBufIndex' :: int
  breakTime' :: uint32_t
  mabTime' :: uint32_t
  adjustedBreakTime' :: uint32_t
  adjustedMABTime' :: uint32_t
  breakBaud' :: uint32_t
  breakFormat' :: uint32_t
  breakUseTimer' :: bool
  packetSize' :: int
  refreshRate' :: float32
  breakToBreakTime' :: uint32_t
  breakStartTime' :: uint32_t
  paused' :: bool
  resumeCounter' :: int
  transmitting' :: bool
  doneTXFunc' :: "nat option"
  calls :: "call list"

definition setBreakTime :: "target \<Rightarrow> uint32_t \<Rightarrow> sender \<Rightarrow> sender" where
  "setBreakTime cfg t s =
     s\<lparr>breakTime' := t, adjustedBreakTime' := t + kBreakTimerAdjust cfg\<rparr>"

definition setMABTime :: "target \<Rightarrow> uint32_t \<Rightarrow> sender \<Rightarrow> sender" where
  "setMABTime cfg t s =
     (let s1 = s\<lparr>mabTime' := t\<rparr>
      in if t < kMABTimerAdjust cfg then s1\<lparr>adjustedMABTime' := 0\<rparr>
         else s1\<lparr>adjustedMABTime' := t - kMABTimerAdjust cfg\<rparr>)"

text \<open>
  The constructor. The base class computes \<^verbatim>\<open>serialIndex_\<close> from the serial port (its
  code is not among the sources), so the index is an argument; the switch creates a handler
  for the ports the target has and leaves \<^verbatim>\<open>sendHandler_\<close> null otherwise. The array
  \<^verbatim>\<open>outputBuf_\<close> is declared in the absent header; it has the 513 bytes of the spec, all
  zero.
\<close>

definition Sender :: "target \<Rightarrow> int \<Rightarrow> sender" where
  "Sender cfg idx =
     setMABTime cfg kDefaultMABTime (setBreakTime cfg kDefaultBreakTime
       \<lparr> serialIndex' = idx,
         packetCount' = 0,
         sendHandler' = (0 \<le> idx \<and> idx < int (numPorts cfg)),
         began' = False,
         state' = kIdle,
         outputBuf' = replicate 513 0,
         outputBufIndex' = 0,
         breakTime' = kDefaultBreakTime,
         mabTime' = kDefaultMABTime,
         adjustedBreakTime' = kDefaultBreakTime,
         adjustedMABTime' = kDefaultMABTime,
         breakBaud' = kDefaultBreakBaud,
         breakFormat' = kDefaultBreakFormat cfg,
         breakUseTimer' = False,
         packetSize' = kMaxDMXPacketSize,
         refreshRate' = Infinity False,
         breakToBreakTime' = 0,
         breakStartTime' = 0,
         paused' = False,
         resumeCounter' = 0,
         transmitting' = False,
         doneTXFunc' = None,
         calls = [] \<rparr>)"

subsection \<open>Calls on the hardware handler and the critical section\<close>

text \<open>A call through \<^verbatim>\<open>sendHandler_\<close>: a null pointer dereference when there is no handler.\<close>

definition handler_call :: "call \<Rightarrow> sender \<Rightarrow> fault + sender" where
  "handler_call c s =
     (if sendHandler' s then Inr (s\<lparr>calls := calls s @ [c]\<rparr>) else Inl NullPointer)"

definition disableIRQs :: "sender \<Rightarrow> fault + sender" where
  "disableIRQs s =
     (if \<not> began' s then Inr s else handler_call (HandlerSetIRQsEnabled False) s)"

definition enableIRQs :: "sender \<Rightarrow> fault + sender" where
  "enableIRQs s =
     (if \<not> began' s then Inr s else handler_call (HandlerSetIRQsEnabled True) s)"

text \<open>
  Modelled from the spec: the class \<^verbatim>\<open>Lock\<close> is declared in the absent header. The spec
  describes a scoped critical section that disables the relevant interrupt for its duration:
  the constructor calls \<open>disableIRQs\<close>, the destructor \<open>enableIRQs\<close>. \<open>locked body s\<close> runs
  \<open>body\<close> inside the scope.
\<close>

definition locked :: "(sender \<Rightarrow> fault + sender) \<Rightarrow> sender \<Rightarrow> fault + sender" where
  "locked body s =
     (case disableIRQs s of
        Inl e \<Rightarrow> Inl e
      | Inr s1 \<Rightarrow>
          (case body s1 of
             Inl e \<Rightarrow> Inl e
           | Inr s2 \<Rightarrow> enableIRQs s2))"

subsection \<open>The channel functions\<close>

text \<open>A store into \<^verbatim>\<open>outputBuf_[i]\<close>; outside the array it is a fault.\<close>

definition store :: "int \<Rightarrow> uint8_t \<Rightarrow> uint8_t list \<Rightarrow> fault + uint8_t list" where
  "store i v buf =
     (if 0 \<le> i \<and> i < int (length buf) then Inr (buf[nat i := v]) else Inl IndexOutOfBounds)"

text \<open>
  \<^verbatim>\<open>bool Sender::set(int channel, uint8_t value)\<close>, named \<open>set_ch\<close> because \<open>set\<close> is
  a constant of HOL.
\<close>

definition set_ch :: "int \<Rightarrow> uint8_t \<Rightarrow> sender \<Rightarrow> fault + bool \<times> sender" where
  "set_ch channel v s =
     (if channel < 0 \<or> kMaxDMXPacketSize \<le> channel then Inr (False, s)
      else case store channel v (outputBuf' s) of
             Inl e \<Rightarrow> Inl e
           | Inr buf \<Rightarrow> Inr (True, s\<lparr>outputBuf' := buf\<rparr>))"

text \<open>\<^verbatim>\<open>bool Sender::set16Bit(int channel, uint16_t value)\<close>\<close>

definition set16Bit :: "int \<Rightarrow> uint16_t \<Rightarrow> sender \<Rightarrow> fault + bool \<times> sender" where
  "set16Bit channel v s =
     (if channel < 0 \<or> kMaxDMXPacketSize - 1 \<le> channel then Inr (False, s)
      else case locked (\<lambda>s1.
                  case store channel (ucast (drop_bit 8 v)) (outputBuf' s1) of
                    Inl e \<Rightarrow> Inl e
                  | Inr b1 \<Rightarrow>
                      (case store (int32 (channel + 1)) (ucast v) b1 of
                         Inl e \<Rightarrow> Inl e
                       | Inr b2 \<Rightarrow> Inr (s1\<lparr>outputBuf' := b2\<rparr>))) s of
             Inl e \<Rightarrow> Inl e
           | Inr s' \<Rightarrow> Inr (True, s'))"

text \<open>
  \<^verbatim>\<open>std::copy_n(&values[0], len, &outputBuf_[startChannel])\<close>: \<open>n\<close> elements are still to
  be copied, the next one from \<open>src[i]\<close> to \<open>dst[j]\<close>.
\<close>

fun copy_n :: "uint8_t list \<Rightarrow> nat \<Rightarrow> nat \<Rightarrow> uint8_t list \<Rightarrow> nat \<Rightarrow> fault + uint8_t list" where
  "copy_n src i 0 dst j = Inr dst"
| "copy_n src i (Suc n) dst j =
     (if i < length src \<and> j < length dst
      then copy_n src (Suc i) n (dst[j := src ! i]) (Suc j)
      else Inl IndexOutOfBounds)"

text \<open>
  \<^verbatim>\<open>bool Sender::set(int startChannel, const uint8_t *values, int len)\<close>, named
  \<open>set_range\<close>. The array behind the pointer is a list; reading past its end is a fault.
  The sum in the second test is the 32-bit one.
\<close>

definition set_range :: "int \<Rightarrow> uint8_t list \<Rightarrow> int \<Rightarrow> sender \<Rightarrow> fault + bool \<times> sender" where
  "set_range startChannel values len s =
     (if len < 0 \<or> startChannel < 0 \<or> kMaxDMXPacketSize \<le> startChannel then Inr (False, s)
      else if len = 0 then Inr (True, s)
      else if int32 (startChannel + len) \<le> 0 \<or> kMaxDMXPacketSize < int32 (startChannel + len)
        then Inr (False, s)
      else case locked (\<lambda>s1.
                  case copy_n values 0 (nat len) (outputBuf' s1) (nat startChannel) of
                    Inl e \<Rightarrow> Inl e
                  | Inr buf \<Rightarrow> Inr (s1\<lparr>outputBuf' := buf\<rparr>)) s of
             Inl e \<Rightarrow> Inl e
           | Inr s' \<Rightarrow> Inr (True, s'))"

text \<open>
  The loop of the 16-bit range function: \<open>i\<close> counts the values, \<open>startChannel\<close> is
  incremented after each of the two stores.
\<close>

function set16Bit_loop ::
  "uint16_t list \<Rightarrow> int \<Rightarrow> int \<Rightarrow> uint8_t list \<Rightarrow> int \<Rightarrow> fault + uint8_t list" where
  "set16Bit_loop values i len buf startChannel =
     (if i < len then
        (if \<not> (0 \<le> i \<and> i < int (length values)) then Inl IndexOutOfBounds
         else case store startChannel (ucast (drop_bit 8 (values ! nat i))) buf of
                Inl e \<Rightarrow> Inl e
              | Inr b1 \<Rightarrow>
                  (case store (int32 (startChannel + 1)) (ucast (values ! nat i)) b1 of
                     Inl e \<Rightarrow> Inl e
                   | Inr b2 \<Rightarrow>
                       set16Bit_loop values (i + 1) len b2 (int32 (int32 (startChannel + 1) + 1))))
      else Inr buf)"
  by pat_completeness auto
termination
  by (relation "measure (\<lambda>(values, i, len, buf, startChannel). nat (len - i))") auto

declare set16Bit_loop.simps [simp del]

text \<open>
  \<^verbatim>\<open>bool Sender::set16Bit(int startChannel, const uint16_t *values, int len)\<close>, named
  \<open>set16Bit_range\<close>. The product and the sum in the second test are the 32-bit ones.
\<close>

definition set16Bit_range :: "int \<Rightarrow> uint16_t list \<Rightarrow> int \<Rightarrow> sender \<Rightarrow> fault + bool \<times> sender" where
  "set16Bit_range startChannel values len s =
     (if len < 0 \<or> startChannel < 0 \<or> kMaxDMXPacketSize \<le> startChannel then Inr (False, s)
      else if len = 0 then Inr (True, s)
      else if int32 (startChannel + int32 (len * 2)) \<le> 0
              \<or> kMaxDMXPacketSize < int32 (startChannel + int32 (len * 2))
        then Inr (False, s)
      else case locked (\<lambda>s1.
                  case set16Bit_loop values 0 len (outputBuf' s1) startChannel of
                    Inl e \<Rightarrow> Inl e
                  | Inr buf \<Rightarrow> Inr (s1\<lparr>outputBuf' := buf\<rparr>)) s of
             Inl e \<Rightarrow> Inl e
           | Inr s' \<Rightarrow> Inr (True, s'))"

text \<open>\<^verbatim>\<open>void Sender::clear()\<close>: \<^verbatim>\<open>std::fill_n\<close> over the first 513 bytes.\<close>

fun fill_n :: "uint8_t list \<Rightarrow> nat \<Rightarrow> nat \<Rightarrow> uint8_t \<Rightarrow> fault + uint8_t list" where
  "fill_n dst j 0 v = Inr dst"
| "fill_n dst j (Suc n) v =
     (if j < length dst then fill_n (dst[j := v]) (Suc j) n v else Inl IndexOutOfBounds)"

definition clear :: "sender \<Rightarrow> fault + sender" where
  "clear s =
     locked (\<lambda>s1. case fill_n (outputBuf' s1) 0 (nat kMaxDMXPacketSize) 0 of
                     Inl e \<Rightarrow> Inl e
                   | Inr buf \<Rightarrow> Inr (s1\<lparr>outputBuf' := buf\<rparr>)) s"

subsection \<open>BREAK timing in serial mode\<close>

text \<open>
  Modelled from the spec: the accessors \<^verbatim>\<open>isBreakUseTimerNotSerial()\<close>,
  \<^verbatim>\<open>breakSerialBaud()\<close> and \<^verbatim>\<open>breakSerialFormat()\<close> are defined in the absent header;
  they return the members of \<open>TimingConfig\<close> that their names say (\<open>useTimerForBreak\<close>,
  \<open>breakBaud\<close>, \<open>breakFormat\<close>).
\<close>

definition isBreakUseTimerNotSerial :: "sender \<Rightarrow> bool" where
  "isBreakUseTimerNotSerial s = breakUseTimer' s"

definition breakSerialBaud :: "sender \<Rightarrow> uint32_t" where
  "breakSerialBaud s = breakBaud' s"

definition breakSerialFormat :: "sender \<Rightarrow> uint32_t" where
  "breakSerialFormat s = breakFormat' s"

text \<open>The scrutinee of the three format switches.\<close>

definition format_bits :: "uint32_t \<Rightarrow> uint32_t" where
  "format_bits f = f AND NOT (kSerialFormatTXINVBit OR kSerialFormatRXINVBit)"

text \<open>
  The switch of \<^verbatim>\<open>breakTime()\<close>: the bit count \<open>t\<close> of a case, \<open>None\<close> for
  \<^verbatim>\<open>default\<close>. The cases are tried in the order of the source.
\<close>

definition breakTime_bits :: "target \<Rightarrow> uint32_t \<Rightarrow> uint32_t option" where
  "breakTime_bits cfg f =
     (if f = SERIAL_7E1 cfg \<or> f = SERIAL_8N1 cfg \<or> f = SERIAL_8O1 cfg \<or> f = SERIAL_8N2 cfg
        then Some 9
      else if f = SERIAL_8E1 cfg then Some 10
      else if has_2stop_parity cfg \<and> f = SERIAL_8E2 cfg then Some 10
      else if has_2stop_parity cfg \<and> f = SERIAL_8O2 cfg then Some 9
      else if f = SERIAL_7O1 cfg then Some 8
      else if SERIAL_9BIT_SUPPORT cfg \<and> (f = SERIAL_9N1 cfg \<or> f = SERIAL_9O1 cfg) then Some 10
      else if SERIAL_9BIT_SUPPORT cfg \<and> f = SERIAL_9E1 cfg then Some 11
      else None)"

definition breakTime :: "target \<Rightarrow> sender \<Rightarrow> fault + uint32_t" where
  "breakTime cfg s =
     (if isBreakUseTimerNotSerial s then Inr (breakTime' s)
      else case breakTime_bits cfg (format_bits (breakSerialFormat s)) of
             None \<Rightarrow> Inr kDefaultBreakTime
           | Some t \<Rightarrow>
               if breakSerialBaud s = 0 then Inl DivisionByZero
               else Inr ((t * 1000000) div breakSerialBaud s))"

text \<open>The switch of \<^verbatim>\<open>mabTime()\<close>.\<close>

definition mabTime_bits :: "target \<Rightarrow> uint32_t \<Rightarrow> uint32_t option" where
  "mabTime_bits cfg f =
     (if f = SERIAL_7E1 cfg \<or> f = SERIAL_8N1 cfg \<or> f = SERIAL_8E1 cfg then Some 1
      else if f = SERIAL_7O1 cfg \<or> f = SERIAL_8O1 cfg \<or> f = SERIAL_8N2 cfg then Some 2
      else if has_2stop_parity cfg \<and> f = SERIAL_8E2 cfg then Some 2
      else if has_2stop_parity cfg \<and> f = SERIAL_8O2 cfg then Some 3
      else if SERIAL_9BIT_SUPPORT cfg \<and> (f = SERIAL_9N1 cfg \<or> f = SERIAL_9E1 cfg) then Some 1
      else if SERIAL_9BIT_SUPPORT cfg \<and> f = SERIAL_9O1 cfg then Some 2
      else None)"

definition mabTime :: "target \<Rightarrow> sender \<Rightarrow> fault + uint32_t" where
  "mabTime cfg s =
     (if isBreakUseTimerNotSerial s then Inr (mabTime' s)
      else case mabTime_bits cfg (format_bits (breakSerialFormat s)) of
             None \<Rightarrow> Inr kDefaultMABTime
           | Some t \<Rightarrow>
               if breakSerialBaud s = 0 then Inl DivisionByZero
               else Inr ((t * 1000000) div breakSerialBaud s))"

text \<open>
  The switch of \<^verbatim>\<open>setBreakSerialParams\<close>: whether a case label matches (the function goes
  on) or \<^verbatim>\<open>default\<close> does (it returns false).
\<close>

definition format_supported :: "target \<Rightarrow> uint32_t \<Rightarrow> bool" where
  "format_supported cfg f =
     (f = SERIAL_7E1 cfg \<or> f = SERIAL_7O1 cfg \<or> f = SERIAL_8N1 cfg \<or> f = SERIAL_8E1 cfg
      \<or> f = SERIAL_8O1 cfg \<or> f = SERIAL_8N2 cfg
      \<or> (has_2stop_parity cfg \<and> (f = SERIAL_8E2 cfg \<or> f = SERIAL_8O2 cfg))
      \<or> (SERIAL_9BIT_SUPPORT cfg
           \<and> (f = SERIAL_9N1 cfg \<or> f = SERIAL_9E1 cfg \<or> f = SERIAL_9O1 cfg)))"

text \<open>
  \<^verbatim>\<open>bool Sender::setBreakSerialParams(uint32_t baud, uint32_t format)\<close>. The switch is on
  \<^verbatim>\<open>breakSerialFormat()\<close>, the stored format, as in the source.
\<close>

definition setBreakSerialParams ::
  "target \<Rightarrow> uint32_t \<Rightarrow> uint32_t \<Rightarrow> sender \<Rightarrow> fault + bool \<times> sender" where
  "setBreakSerialParams cfg baud format s =
     (if baud = 0 then Inr (False, s)
      else if format AND kSerialFormatTXINVBit \<noteq> 0 then Inr (False, s)
      else if \<not> format_supported cfg (format_bits (breakSerialFormat s)) then Inr (False, s)
      else case handler_call HandlerBreakSerialParamsChanged
                  (s\<lparr>breakBaud' := baud, breakFormat' := format\<rparr>) of
             Inl e \<Rightarrow> Inl e
           | Inr s' \<Rightarrow> Inr (True, s'))"

subsection \<open>Packet completion\<close>

text \<open>
  \<^verbatim>\<open>bool Sender::isTransmitting() const\<close>; the flag is read inside the critical section.
\<close>

definition isTransmitting :: "sender \<Rightarrow> fault + bool \<times> sender" where
  "isTransmitting s =
     (case disableIRQs s of
        Inl e \<Rightarrow> Inl e
      | Inr s1 \<Rightarrow>
          (let state = (\<not> paused' s1 \<or> transmitting' s1)
           in case enableIRQs s1 of
                Inl e \<Rightarrow> Inl e
              | Inr s2 \<Rightarrow> Inr (state, s2)))"

text \<open>
  Modelled from the spec: \<^verbatim>\<open>incPacketCount()\<close> and \<^verbatim>\<open>resetPacketCount()\<close> belong to the
  base class, whose code is absent; the spec has a packet counter that completion
  increments and \<^verbatim>\<open>begin()\<close> resets.
\<close>

definition incPacketCount :: "sender \<Rightarrow> sender" where
  "incPacketCount s = s\<lparr>packetCount' := packetCount' s + 1\<rparr>"

definition resetPacketCount :: "sender \<Rightarrow> sender" where
  "resetPacketCount s = s\<lparr>packetCount' := 0\<rparr>"

text \<open>
  \<^verbatim>\<open>void Sender::completePacket()\<close>. The completion function is caller's code: \<open>run f\<close> is
  what the function at address \<open>f\<close> does to the instance it is given; the call is recorded
  before it runs.
\<close>

definition completePacket :: "(nat \<Rightarrow> sender \<Rightarrow> sender) \<Rightarrow> sender \<Rightarrow> sender" where
  "completePacket run s =
     (let s1 = (incPacketCount s)\<lparr>outputBufIndex' := 0, transmitting' := False, state' := kIdle\<rparr>
      in if paused' s1 then
           (case doneTXFunc' s1 of
              None \<Rightarrow> s1
            | Some f \<Rightarrow> run f (s1\<lparr>calls := calls s1 @ [DoneTXFunc f]\<rparr>))
         else s1)"

subsection \<open>The registry and the life cycle\<close>

text \<open>
  \<^verbatim>\<open>txInstances\<close> holds pointers to instances, so the instances live in a store: \<open>senders\<close>
  maps the address of an instance to its members, a slot of \<open>txInstances\<close> is \<open>None\<close> for
  \<^verbatim>\<open>nullptr\<close> or the address of an instance.
\<close>

record world =
  senders :: "nat \<Rightarrow> sender"
  txInstances :: "nat option list"

definition upd :: "nat \<Rightarrow> (sender \<Rightarrow> sender) \<Rightarrow> world \<Rightarrow> world" where
  "upd this f w = w\<lparr>senders := (senders w)(this := f (senders w this))\<rparr>"

text \<open>A member function that can fault, run on the instance at \<open>this\<close>.\<close>

definition on_instance :: "nat \<Rightarrow> (sender \<Rightarrow> fault + sender) \<Rightarrow> world \<Rightarrow> fault + world" where
  "on_instance this f w =
     (case f (senders w this) of
        Inl e \<Rightarrow> Inl e
      | Inr s \<Rightarrow> Inr (w\<lparr>senders := (senders w)(this := s)\<rparr>))"

definition then_do :: "fault + 'a \<Rightarrow> ('a \<Rightarrow> fault + 'b) \<Rightarrow> fault + 'b" where
  "then_do m f = (case m of Inl e \<Rightarrow> Inl e | Inr x \<Rightarrow> f x)"

text \<open>A read or write of \<^verbatim>\<open>txInstances[i]\<close>.\<close>

definition slot_get :: "int \<Rightarrow> world \<Rightarrow> fault + nat option" where
  "slot_get i w =
     (if 0 \<le> i \<and> i < int (length (txInstances w)) then Inr (txInstances w ! nat i)
      else Inl IndexOutOfBounds)"

definition slot_set :: "int \<Rightarrow> nat option \<Rightarrow> world \<Rightarrow> fault + world" where
  "slot_set i p w =
     (if 0 \<le> i \<and> i < int (length (txInstances w))
      then Inr (w\<lparr>txInstances := (txInstances w)[nat i := p]\<rparr>)
      else Inl IndexOutOfBounds)"

text \<open>
  \<^verbatim>\<open>void Sender::end()\<close>, on the instance at \<open>this\<close> (\<open>end\<close> and \<open>begin\<close> are keywords
  of the theory language, hence the prefix).
\<close>

definition Sender_end :: "nat \<Rightarrow> world \<Rightarrow> fault + world" where
  "Sender_end this w =
     (if \<not> began' (senders w this) then Inr w
      else let w1 = upd this (\<lambda>s. s\<lparr>began' := False\<rparr>) w in
        if serialIndex' (senders w1 this) < 0 then Inr w1
        else
          then_do (on_instance this (handler_call HandlerEnd) w1) (\<lambda>w2.
          let w3 = upd this (\<lambda>s. s\<lparr>calls := calls s @ [TimerEnd]\<rparr>) w2 in
          then_do (slot_get (serialIndex' (senders w3 this)) w3) (\<lambda>p.
          if p = Some this then slot_set (serialIndex' (senders w3 this)) None w3
          else Inr w3)))"

text \<open>\<^verbatim>\<open>void Sender::begin()\<close>, on the instance at \<open>this\<close>.\<close>

definition Sender_begin :: "nat \<Rightarrow> world \<Rightarrow> fault + world" where
  "Sender_begin this w =
     (if began' (senders w this) then Inr w
      else let w1 = upd this (\<lambda>s. s\<lparr>began' := True\<rparr>) w in
        if serialIndex' (senders w1 this) < 0 then Inr w1
        else
          let w2 = upd this resetPacketCount w1 in
          then_do (slot_get (serialIndex' (senders w2 this)) w2) (\<lambda>s.
          then_do (slot_set (serialIndex' (senders w2 this)) (Some this) w2) (\<lambda>w3.
          then_do (case s of
                     None \<Rightarrow> Inr w3
                   | Some p \<Rightarrow> if p \<noteq> this then Sender_end p w3 else Inr w3) (\<lambda>w4.
          let w5 = upd this (\<lambda>s. s\<lparr>transmitting' := False, state' := kIdle\<rparr>) w4 in
          then_do (on_instance this (handler_call HandlerStart) w5) (\<lambda>w6.
          then_do (on_instance this (handler_call HandlerPriority) w6) (\<lambda>w7.
          let w8 = upd this (\<lambda>s. s\<lparr>calls := calls s @ [TimerSetPriority]\<rparr>) w7 in
          on_instance this (handler_call HandlerSetActive) w8))))))"

subsection \<open>The refresh rate\<close>

text \<open>
  Single precision arithmetic, as far as \<^verbatim>\<open>setRefreshRate\<close> uses it. A finite value
  \<open>Finite s m e\<close> of the type has \<open>m < 2 ^ 24\<close> and \<open>- 149 \<le> e \<le> 104\<close>.
\<close>

definition valid_float32 :: "float32 \<Rightarrow> bool" where
  "valid_float32 x =
     (case x of Finite s m e \<Rightarrow> m < 2 ^ 24 \<and> - 149 \<le> e \<and> e \<le> 104 | _ \<Rightarrow> True)"

text \<open>\<^verbatim>\<open>rate != rate\<close>, \<^verbatim>\<open>rate < 0.0f\<close> and \<^verbatim>\<open>rate == 0.0f\<close>.\<close>

definition is_nan :: "float32 \<Rightarrow> bool" where
  "is_nan x = (x = NaN)"

definition less_zero :: "float32 \<Rightarrow> bool" where
  "less_zero x = (case x of NaN \<Rightarrow> False | Infinity neg \<Rightarrow> neg | Finite neg m e \<Rightarrow> neg \<and> m \<noteq> 0)"

definition equals_zero :: "float32 \<Rightarrow> bool" where
  "equals_zero x = (case x of Finite neg m e \<Rightarrow> m = 0 | _ \<Rightarrow> False)"

text \<open>The number of binary digits of a natural number.\<close>

fun bitlen :: "nat \<Rightarrow> nat" where
  "bitlen n = (if n = 0 then 0 else Suc (bitlen (n div 2)))"

declare bitlen.simps [simp del]

text \<open>
  The exponent \<open>k\<close> with \<open>2 ^ k \<le> a / b < 2 ^ (k + 1)\<close> of a positive fraction.
\<close>

definition floor_log2 :: "nat \<Rightarrow> nat \<Rightarrow> int" where
  "floor_log2 a b =
     (let d = int (bitlen a) - int (bitlen b)
      in if (if 0 \<le> d then b * 2 ^ nat d \<le> a else b \<le> a * 2 ^ nat (- d)) then d else d - 1)"

text \<open>Rounding of the fraction \<open>a / b\<close> to the nearest integer, ties to even.\<close>

definition round_half_even :: "nat \<Rightarrow> nat \<Rightarrow> nat" where
  "round_half_even a b =
     (let q = a div b; r = a mod b
      in if 2 * r < b then q
         else if b < 2 * r then q + 1
         else if even q then q else q + 1)"

text \<open>
  The binary32 value nearest to the positive fraction \<open>a / b\<close> (round to nearest, ties to
  even): 24 significant bits, exponent of the last bit at least \<open>- 149\<close>, infinity from
  \<open>2 ^ 128\<close> on.
\<close>

definition round_float32 :: "nat \<Rightarrow> nat \<Rightarrow> float32" where
  "round_float32 a b =
     (let e = max (floor_log2 a b - 23) (- 149);
          m = (if 0 \<le> e then round_half_even a (b * 2 ^ nat e)
               else round_half_even (a * 2 ^ nat (- e)) b);
          (m, e) = (if m = 2 ^ 24 then (2 ^ 23, e + 1) else (m, e))
      in if 104 < e then Infinity False else Finite False m e)"

text \<open>The exact quotient \<open>1000000 / (m * 2 ^ e)\<close>, as a fraction \<open>a / b\<close>.\<close>

definition quotient_1000000 :: "nat \<Rightarrow> int \<Rightarrow> nat \<times> nat" where
  "quotient_1000000 m e =
     (if 0 \<le> e then (1000000, m * 2 ^ nat e) else (1000000 * 2 ^ nat (- e), m))"

text \<open>
  \<^verbatim>\<open>1000000 / rate\<close>: the integer is converted to \<^verbatim>\<open>float\<close> exactly, and the quotient is
  rounded.
\<close>

definition div_1000000 :: "float32 \<Rightarrow> float32" where
  "div_1000000 rate =
     (case rate of
        NaN \<Rightarrow> NaN
      | Infinity neg \<Rightarrow> Finite neg 0 0
      | Finite neg m e \<Rightarrow>
          if m = 0 then Infinity neg
          else case quotient_1000000 m e of
                 (a, b) \<Rightarrow>
                   (case round_float32 a b of
                      Finite s m' e' \<Rightarrow> Finite neg m' e'
                    | Infinity s \<Rightarrow> Infinity neg
                    | NaN \<Rightarrow> NaN))"

text \<open>The magnitude \<open>m * 2 ^ e\<close> without its fraction.\<close>

definition truncated :: "nat \<Rightarrow> int \<Rightarrow> nat" where
  "truncated m e = (if 0 \<le> e then m * 2 ^ nat e else m div 2 ^ nat (- e))"

text \<open>
  A \<^verbatim>\<open>float\<close> whose value, truncated towards zero, is a value of \<^verbatim>\<open>uint32_t\<close>.
\<close>

definition in_uint32_range :: "float32 \<Rightarrow> bool" where
  "in_uint32_range x =
     (case x of
        Finite neg m e \<Rightarrow> truncated m e = 0 \<or> (\<not> neg \<and> truncated m e < 2 ^ 32)
      | _ \<Rightarrow> False)"

text \<open>
  The conversion of a \<^verbatim>\<open>float\<close> to \<^verbatim>\<open>uint32_t\<close> in the assignment
  \<^verbatim>\<open>breakToBreakTime_ = 1000000 / rate\<close>: the value truncated towards zero. For a value
  outside the type the language leaves the result open; the program still stores a 32-bit
  number, the one that the conversion routine of the processor yields. That routine is the
  parameter \<open>out_of_range\<close>.
\<close>

definition float_to_uint32 :: "(float32 \<Rightarrow> uint32_t) \<Rightarrow> float32 \<Rightarrow> uint32_t" where
  "float_to_uint32 out_of_range x =
     (case x of
        Finite neg m e \<Rightarrow> if in_uint32_range x then of_nat (truncated m e) else out_of_range x
      | _ \<Rightarrow> out_of_range x)"

text \<open>
  For the examples, the conversion of the ARM processors of the Teensy boards, which
  saturates: 0 for a NaN and for negative values, the largest number for values that are
  too large.
\<close>

definition saturated :: "float32 \<Rightarrow> uint32_t" where
  "saturated x =
     (case x of
        NaN \<Rightarrow> 0
      | Infinity neg \<Rightarrow> if neg then 0 else 0xFFFFFFFF
      | Finite neg m e \<Rightarrow> if neg then 0 else 0xFFFFFFFF)"

text \<open>
  \<^verbatim>\<open>bool Sender::setRefreshRate(float rate)\<close>, on the instance at \<open>this\<close>. The only faults
  are those of \<^verbatim>\<open>end()\<close> and \<^verbatim>\<open>begin()\<close>.
\<close>

definition setRefreshRate ::
    "(float32 \<Rightarrow> uint32_t) \<Rightarrow> float32 \<Rightarrow> nat \<Rightarrow> world \<Rightarrow> fault + bool \<times> world" where
  "setRefreshRate out_of_range rate this w =
     (if is_nan rate \<or> less_zero rate then Inr (False, w)
      else
        then_do
          (if equals_zero rate
           then Inr (upd this (\<lambda>s. s\<lparr>breakToBreakTime' := 0xFFFFFFFF\<rparr>) w)
           else
             then_do (if equals_zero (refreshRate' (senders w this))
                      then then_do (Sender_end this w) (Sender_begin this)
                      else Inr w) (\<lambda>w1.
             Inr (upd this (\<lambda>s. s\<lparr>breakToBreakTime' :=
                                       float_to_uint32 out_of_range (div_1000000 rate)\<rparr>) w1)))
          (\<lambda>w2. Inr (True, upd this (\<lambda>s. s\<lparr>refreshRate' := rate\<rparr>) w2)))"

subsection \<open>Well-formed targets\<close>

text \<open>
  The case labels of the switch in \<^verbatim>\<open>setBreakSerialParams\<close>, in the order of the source. The
  compiler accepts the three switches only if their labels are pairwise distinct, so a
  target that builds has \<open>distinct (case_labels cfg)\<close>.
\<close>

definition case_labels :: "target \<Rightarrow> uint32_t list" where
  "case_labels cfg =
     [SERIAL_7E1 cfg, SERIAL_7O1 cfg, SERIAL_8N1 cfg, SERIAL_8E1 cfg, SERIAL_8O1 cfg,
      SERIAL_8N2 cfg]
     @ (if has_2stop_parity cfg then [SERIAL_8E2 cfg, SERIAL_8O2 cfg] else [])
     @ (if SERIAL_9BIT_SUPPORT cfg then [SERIAL_9N1 cfg, SERIAL_9E1 cfg, SERIAL_9O1 cfg] else [])"

subsection \<open>Well-formed systems\<close>

text \<open>
  Every instance that is bound to a port has a handler and a slot in the registry: the
  constructor's switch and the size of \<^verbatim>\<open>txInstances\<close> cover the ports of the target.
\<close>

definition instances_wf :: "world \<Rightarrow> bool" where
  "instances_wf w =
     (\<forall>p. 0 \<le> serialIndex' (senders w p) \<longrightarrow>
          sendHandler' (senders w p)
          \<and> serialIndex' (senders w p) < int (length (txInstances w)))"

text \<open>
  The invariant of the registry: every started instance that is bound to a port is the
  one its port's slot points to, and a slot points to nothing but a started instance of
  its port.
\<close>

definition registry_ok :: "world \<Rightarrow> bool" where
  "registry_ok w =
     ((\<forall>p. began' (senders w p) \<and> 0 \<le> serialIndex' (senders w p) \<longrightarrow>
           slot_get (serialIndex' (senders w p)) w = Inr (Some p))
      \<and> (\<forall>i p. slot_get i w = Inr (Some p) \<longrightarrow>
           began' (senders w p) \<and> serialIndex' (senders w p) = i))"

subsection \<open>A system to run\<close>

text \<open>
  A Teensy 3.2 before any \<^verbatim>\<open>begin()\<close>: the instance at address \<open>p\<close> is constructed on
  port \<open>p mod 3\<close>, so the instances 0 and 3 share port 0, and every slot of the registry
  is null.
\<close>

definition world0 :: world where
  "world0 = \<lparr> senders = (\<lambda>p. Sender teensy32 (int (p mod 3))),
                txInstances = replicate (numTxInstances teensy32) None \<rparr>"

text \<open>
  Instance 0 is started and its refresh rate set to 0; the interrupt handler (outside
  \<^verbatim>\<open>Sender.cpp\<close>) has a packet in flight, which completes; then the application asks
  \<^verbatim>\<open>isTransmitting()\<close>. The run yields the results of \<^verbatim>\<open>setRefreshRate\<close> and of
  \<^verbatim>\<open>isTransmitting\<close>.
\<close>

definition refresh_zero_run :: "fault + bool \<times> bool" where
  "refresh_zero_run =
     then_do (Sender_begin 0 world0) (\<lambda>w1.
     then_do (setRefreshRate saturated (Finite False 0 0) 0 w1) (\<lambda>(ok, w2).
     then_do (isTransmitting
                (completePacket (\<lambda>f s. s)
                   ((senders w2 0)\<lparr>transmitting' := True, state' := kData\<rparr>))) (\<lambda>(t, s).
     Inr (ok, t))))"

text \<open>
  On the same system before any \<^verbatim>\<open>begin()\<close>, the refresh rate of instance 0 is set to
  \<open>3 * 2 ^ - 15\<close> Hz, about one packet in three hours. The run yields the result of the call,
  the interval and the rate that the instance then holds.
\<close>

definition slow_rate_run :: "fault + bool \<times> uint32_t \<times> float32" where
  "slow_rate_run =
     then_do (setRefreshRate saturated (Finite False 3 (- 15)) 0 world0) (\<lambda>(ok, w).
     Inr (ok, breakToBreakTime' (senders w 0), refreshRate' (senders w 0)))"

text \<open>
  The bytes that the 16-bit range function stores for a list of values: for each value its
  high byte, then its low byte.
\<close>

fun bytes16 :: "uint16_t list \<Rightarrow> uint8_t list" where
  "bytes16 [] = []"
| "bytes16 (v # vs) = ucast (drop_bit 8 v) # ucast v # bytes16 vs"

text \<open>The calls that one critical section makes on the handler of an instance.\<close>

definition lock_calls :: "sender \<Rightarrow> call list" where
  "lock_calls s =
     (if began' s then [HandlerSetIRQsEnabled False, HandlerSetIRQsEnabled True] else [])"

subsection \<open>The application and the transmit interrupt, interleaved\<close>

text \<open>
  Modelled from the spec: the transmit interrupt handler is not in \<^verbatim>\<open>Sender.cpp\<close>. The spec
  describes it in the data state (``the hardware interrupt fires once per byte consumed; the
  handler pushes the next pending byte from ChannelBuffer until the full packet has been
  shifted out'') and says of the critical section that it ``disables the relevant interrupt
  for its duration''. An engine is an instance together with the interrupt enable of its
  handler and the bytes pushed so far, in order.
\<close>

record engine =
  inst :: sender
  irqs_enabled :: bool
  pushed :: "uint8_t list"

text \<open>
  Modelled from the spec: one run of the interrupt handler. It pushes the byte at
  \<^verbatim>\<open>outputBufIndex_\<close> and advances the index; it does not run on an instance that has not
  begun or while the interrupt is disabled, and it pushes nothing once \<^verbatim>\<open>packetSize_\<close> bytes
  are out.
\<close>

definition isr :: "engine \<Rightarrow> engine" where
  "isr e =
     (let s = inst e; i = outputBufIndex' s
      in if began' s \<and> irqs_enabled e \<and> 0 \<le> i \<and> i < packetSize' s
            \<and> i < int (length (outputBuf' s))
         then e\<lparr>inst := s\<lparr>outputBufIndex' := i + 1\<rparr>,
                pushed := pushed e @ [outputBuf' s ! nat i]\<rparr>
         else e)"

text \<open>
  Modelled from the spec: the steps that the two contexts take one at a time. They are a run
  of the interrupt handler, and in the application the constructor of \<^verbatim>\<open>Lock\<close>
  (\<open>disableIRQs\<close>), a store into \<^verbatim>\<open>outputBuf_\<close> and the destructor of \<^verbatim>\<open>Lock\<close>
  (\<open>enableIRQs\<close>). The call \<^verbatim>\<open>setIRQsEnabled\<close> that these two make on the handler of an
  instance that has begun sets the interrupt enable.
\<close>

datatype event = Isr | Enter | Write int uint8_t | Leave

fun is_write :: "event \<Rightarrow> bool" where
  "is_write (Write i v) = True"
| "is_write _ = False"

fun step_event :: "event \<Rightarrow> engine \<Rightarrow> fault + engine" where
  "step_event Isr e = Inr (isr e)"
| "step_event Enter e =
     (case disableIRQs (inst e) of
        Inl f \<Rightarrow> Inl f
      | Inr s \<Rightarrow> Inr (e\<lparr>inst := s, irqs_enabled := irqs_enabled e \<and> \<not> began' s\<rparr>))"
| "step_event (Write i v) e =
     (case store i v (outputBuf' (inst e)) of
        Inl f \<Rightarrow> Inl f
      | Inr b \<Rightarrow> Inr (e\<lparr>inst := (inst e)\<lparr>outputBuf' := b\<rparr>\<rparr>))"
| "step_event Leave e =
     (case enableIRQs (inst e) of
        Inl f \<Rightarrow> Inl f
      | Inr s \<Rightarrow> Inr (e\<lparr>inst := s, irqs_enabled := irqs_enabled e \<or> began' s\<rparr>))"

text \<open>A schedule: the steps of both contexts in the order in which they happen.\<close>

fun run_schedule :: "event list \<Rightarrow> engine \<Rightarrow> fault + engine" where
  "run_schedule [] e = Inr e"
| "run_schedule (x # xs) e =
     (case step_event x e of Inl f \<Rightarrow> Inl f | Inr e' \<Rightarrow> run_schedule xs e')"

text \<open>
  The steps of \<^verbatim>\<open>set16Bit(channel, value)\<close>: none when the channel is refused, else the
  critical section with the two stores.
\<close>

definition set16Bit_events :: "int \<Rightarrow> uint16_t \<Rightarrow> event list" where
  "set16Bit_events channel v =
     (if channel < 0 \<or> kMaxDMXPacketSize - 1 \<le> channel then []
      else [Enter, Write channel (ucast (drop_bit 8 v)), Write (int32 (channel + 1)) (ucast v),
            Leave])"

text \<open>
  An instance on port 0 of a Teensy 3.2 that has begun, with its interrupt enabled and no
  byte of the packet out yet; the buffer holds zeros.
\<close>

definition engine0 :: engine where
  "engine0 = \<lparr> inst = (Sender teensy32 0)\<lparr>began' := True\<rparr>, irqs_enabled = True, pushed = [] \<rparr>"

text \<open>
  On \<open>engine0\<close> the handler runs twice, then the application calls
  \<^verbatim>\<open>set16Bit(1, 0x1234)\<close>, then the handler runs once more. The run yields the bytes pushed
  and the first three bytes of the buffer at the end.
\<close>

definition torn_run :: "fault + uint8_t list \<times> uint8_t list" where
  "torn_run =
     then_do (run_schedule ([Isr, Isr] @ set16Bit_events 1 0x1234 @ [Isr]) engine0) (\<lambda>e.
     Inr (pushed e, take 3 (outputBuf' (inst e))))"


section \<open>Properties\<close>

subsection \<open>Wrap-around and the copy loops\<close>


lemma int32_id: "is_int32 x \<Longrightarrow> int32 x = x"
  by (simp add: int32_def is_int32_def)

lemma int32_overflow: "2 ^ 31 \<le> x \<Longrightarrow> x < 2 ^ 32 \<Longrightarrow> int32 x = x - 2 ^ 32"
proof -
  assume a: "2 ^ 31 \<le> x" "x < 2 ^ 32"
  have "(x + 2 ^ 31) mod 2 ^ 32 = (x + 2 ^ 31 - 2 ^ 32) mod (2 ^ 32 :: int)"
    by (simp only: minus_mod_self2)
  also have "\<dots> = x + 2 ^ 31 - 2 ^ 32"
    using a by (intro mod_pos_pos_trivial) simp_all
  finally show ?thesis by (simp add: int32_def)
qed

lemma copy_n_in_bounds:
  "i + n \<le> length src \<Longrightarrow> j + n \<le> length dst \<Longrightarrow>
   copy_n src i n dst j = Inr (take j dst @ take n (drop i src) @ drop (j + n) dst)"
proof (induction n arbitrary: i j dst)
  case 0
  then show ?case by simp
next
  case (Suc n)
  have i: "i < length src" and j: "j < length dst" using Suc.prems by auto
  have "copy_n src (Suc i) n (dst[j := src ! i]) (Suc j) =
        Inr (take (Suc j) (dst[j := src ! i]) @ take n (drop (Suc i) src)
             @ drop (Suc j + n) (dst[j := src ! i]))"
    using Suc.prems by (intro Suc.IH) auto
  moreover have "take (Suc j) (dst[j := src ! i]) = take j dst @ [src ! i]"
    using j by (simp add: take_Suc_conv_app_nth)
  moreover have "take (Suc n) (drop i src) = src ! i # take n (drop (Suc i) src)"
    using i by (simp add: Cons_nth_drop_Suc [symmetric])
  ultimately show ?case using i j by simp
qed

lemma int32_sum_reject:
  assumes "0 \<le> a" "a < 513" "513 < a + b" "a + b \<le> 2 ^ 32"
  shows "int32 (a + b) \<le> 0 \<or> 513 < int32 (a + b)"
proof (cases "a + b < 2 ^ 31")
  case True
  then have "int32 (a + b) = a + b"
    using assms by (intro int32_id) (simp add: is_int32_def)
  then show ?thesis using assms by simp
next
  case False
  show ?thesis
  proof (cases "a + b = 2 ^ 32")
    case True
    then show ?thesis by (simp add: int32_def)
  next
    case ne: False
    then have "int32 (a + b) = a + b - 2 ^ 32"
      using False assms by (intro int32_overflow) simp_all
    then show ?thesis using assms by simp
  qed
qed

lemma set_range_reject:
  assumes "is_int32 startChannel" "is_int32 len"
    and "startChannel < 0 \<or> len < 0 \<or> 513 \<le> startChannel \<or> (0 < len \<and> 513 < startChannel + len)"
  shows "set_range startChannel values len s = Inr (False, s)"
proof (cases "len < 0 \<or> startChannel < 0 \<or> 513 \<le> startChannel")
  case True
  then show ?thesis by (auto simp: set_range_def kMaxDMXPacketSize_def)
next
  case False
  then have b: "0 < len" "513 < startChannel + len" "0 \<le> startChannel" "startChannel < 513"
    using assms(3) by auto
  have "startChannel + len \<le> 2 ^ 32"
    using assms(1,2) by (simp add: is_int32_def)
  then have "int32 (startChannel + len) \<le> 0 \<or> 513 < int32 (startChannel + len)"
    using b by (intro int32_sum_reject) simp_all
  then show ?thesis using False b by (auto simp: set_range_def kMaxDMXPacketSize_def)
qed

lemma int32_twice:
  assumes "0 < len" "is_int32 len"
  shows "int32 (len * 2) = (if len < 2 ^ 30 then len * 2 else len * 2 - 2 ^ 32)"
proof (cases "len < 2 ^ 30")
  case True
  then have "int32 (len * 2) = len * 2"
    using assms by (intro int32_id) (simp add: is_int32_def)
  then show ?thesis using True by simp
next
  case False
  then have "int32 (len * 2) = len * 2 - 2 ^ 32"
    using assms by (intro int32_overflow) (simp_all add: is_int32_def)
  then show ?thesis using False by simp
qed

lemma set16Bit_range_reject:
  assumes "is_int32 startChannel" "is_int32 len"
    and "startChannel < 0 \<or> len < 0 \<or> 513 \<le> startChannel
         \<or> (0 < len \<and> 513 < startChannel + 2 * len \<and> startChannel + 2 * len \<le> 2 ^ 32)"
  shows "set16Bit_range startChannel values len s = Inr (False, s)"
proof (cases "len < 0 \<or> startChannel < 0 \<or> 513 \<le> startChannel")
  case True
  then show ?thesis by (auto simp: set16Bit_range_def kMaxDMXPacketSize_def)
next
  case False
  then have b: "0 < len" "513 < startChannel + 2 * len" "startChannel + 2 * len \<le> 2 ^ 32"
      "0 \<le> startChannel" "startChannel < 513"
    using assms(3) by auto
  have r: "int32 (startChannel + int32 (len * 2)) \<le> 0
           \<or> 513 < int32 (startChannel + int32 (len * 2))"
  proof (cases "len < 2 ^ 30")
    case True
    then have "int32 (len * 2) = len * 2"
      using b assms(2) by (simp add: int32_twice)
    moreover have "int32 (startChannel + len * 2) \<le> 0 \<or> 513 < int32 (startChannel + len * 2)"
      using b by (intro int32_sum_reject) simp_all
    ultimately show ?thesis by simp
  next
    case False
    then have t: "int32 (len * 2) = len * 2 - 2 ^ 32"
      using b assms(2) by (simp add: int32_twice)
    have "is_int32 (startChannel + (len * 2 - 2 ^ 32))"
      using False b assms(2) by (simp add: is_int32_def)
    then have "int32 (startChannel + (len * 2 - 2 ^ 32)) = startChannel + (len * 2 - 2 ^ 32)"
      by (rule int32_id)
    then show ?thesis using t b by simp
  qed
  show ?thesis using False b r by (auto simp: set16Bit_range_def kMaxDMXPacketSize_def)
qed

lemma locked_buf:
  assumes "began' s \<longrightarrow> sendHandler' s" "g (outputBuf' s) = Inr buf"
  shows "locked (\<lambda>s1. case g (outputBuf' s1) of Inl e \<Rightarrow> Inl e
                        | Inr b \<Rightarrow> Inr (s1\<lparr>outputBuf' := b\<rparr>)) s =
         Inr (s\<lparr>outputBuf' := buf,
                calls := calls s @ lock_calls s\<rparr>)"
  using assms
  by (simp add: locked_def disableIRQs_def enableIRQs_def handler_call_def lock_calls_def)

lemma set_range_accept:
  assumes "0 \<le> startChannel" "0 < len" "startChannel + len \<le> 513"
    and "len \<le> int (length values)" "length (outputBuf' s) = 513"
    and "began' s \<longrightarrow> sendHandler' s"
  shows "set_range startChannel values len s =
         Inr (True, s\<lparr>outputBuf' := take (nat startChannel) (outputBuf' s) @ take (nat len) values
                          @ drop (nat startChannel + nat len) (outputBuf' s),
                calls := calls s @ lock_calls s\<rparr>)"
proof -
  have i: "int32 (startChannel + len) = startChannel + len"
    using assms by (intro int32_id) (simp add: is_int32_def)
  have c: "copy_n values 0 (nat len) (outputBuf' s) (nat startChannel) =
        Inr (take (nat startChannel) (outputBuf' s) @ take (nat len) (drop 0 values)
          @ drop (nat startChannel + nat len) (outputBuf' s))"
    using assms by (intro copy_n_in_bounds) auto
  show ?thesis
    using assms i
    by (simp add: set_range_def kMaxDMXPacketSize_def
        locked_buf [where g = "\<lambda>b. copy_n values 0 (nat len) b (nat startChannel)", OF assms(6) c])
qed

lemma length_bytes16: "length (bytes16 vs) = 2 * length vs"
  by (induction vs) auto

lemma set16Bit_loop_in_bounds:
  "0 \<le> i \<Longrightarrow> i \<le> len \<Longrightarrow> len \<le> int (length values) \<Longrightarrow> 0 \<le> startChannel \<Longrightarrow>
   startChannel + 2 * (len - i) \<le> int (length buf) \<Longrightarrow> length buf < 2 ^ 30 \<Longrightarrow>
   set16Bit_loop values i len buf startChannel =
     Inr (take (nat startChannel) buf @ bytes16 (take (nat (len - i)) (drop (nat i) values))
          @ drop (nat (startChannel + 2 * (len - i))) buf)"
proof (induction "values" i len buf startChannel rule: set16Bit_loop.induct)
  case (1 vals i len buf startChannel)
  show ?case
  proof (cases "i < len")
    case False
    then have "len = i" using "1.prems" by simp
    then show ?thesis using "1.prems" by (simp add: set16Bit_loop.simps)
  next
    case True
    define v where "v = vals ! nat i"
    define b1 where "b1 = buf[nat startChannel := ucast (drop_bit 8 v)]"
    define b2 where "b2 = b1[nat startChannel + 1 := ucast v]"
    have iv: "0 \<le> i \<and> i < int (length vals)" using True "1.prems" by simp
    have s1: "store startChannel (ucast (drop_bit 8 (vals ! nat i))) buf = Inr b1"
      using True "1.prems" by (simp add: store_def b1_def v_def)
    have n1: "int32 (startChannel + 1) = startChannel + 1"
      using True "1.prems" by (intro int32_id) (simp add: is_int32_def)
    have n2: "int32 (int32 (startChannel + 1) + 1) = startChannel + 2"
      using True "1.prems" n1 by (simp add: int32_id is_int32_def)
    have s2: "store (int32 (startChannel + 1)) (ucast (vals ! nat i)) b1 = Inr b2"
      using True "1.prems" n1 by (simp add: store_def b1_def b2_def v_def nat_add_distrib)
    have ih: "set16Bit_loop vals (i + 1) len b2 (int32 (int32 (startChannel + 1) + 1)) =
       Inr (take (nat (int32 (int32 (startChannel + 1) + 1))) b2
            @ bytes16 (take (nat (len - (i + 1))) (drop (nat (i + 1)) vals))
            @ drop (nat (int32 (int32 (startChannel + 1) + 1) + 2 * (len - (i + 1)))) b2)"
      using True "1.prems" n2 iv
      by (intro "1.IH" [OF True _ s1 s2]) (simp_all add: b1_def b2_def)
    have unf: "set16Bit_loop vals i len buf startChannel =
       set16Bit_loop vals (i + 1) len b2 (int32 (int32 (startChannel + 1) + 1))"
      using True iv s1 s2 by (subst set16Bit_loop.simps) simp
    have l: "nat startChannel + 1 < length buf" using True "1.prems" by simp
    have tk: "take (nat (startChannel + 2)) b2 =
              take (nat startChannel) buf @ [ucast (drop_bit 8 v), ucast v]"
    proof -
      have "nat (startChannel + 2) = Suc (Suc (nat startChannel))"
        using "1.prems" by simp
      then show ?thesis using l
        by (simp add: b1_def b2_def take_Suc_conv_app_nth)
    qed
    have dr: "drop (nat (startChannel + 2 + 2 * (len - (i + 1)))) b2 =
              drop (nat (startChannel + 2 * (len - i))) buf"
    proof -
      have "startChannel + 2 + 2 * (len - (i + 1)) = startChannel + 2 * (len - i)" by simp
      moreover have "nat startChannel + 1 < nat (startChannel + 2 * (len - i))"
        using True "1.prems" by simp
      moreover have "nat startChannel < nat (startChannel + 2 * (len - i))"
        using True "1.prems" by simp
      ultimately show ?thesis by (simp add: b1_def b2_def)
    qed
    have vs: "take (nat (len - i)) (drop (nat i) vals) =
              v # take (nat (len - (i + 1))) (drop (nat (i + 1)) vals)"
    proof -
      have "nat (len - i) = Suc (nat (len - (i + 1)))" using True by linarith
      moreover have "nat (i + 1) = Suc (nat i)" using iv by linarith
      moreover have "nat i < length vals" using iv by linarith
      then have "drop (nat i) vals = vals ! nat i # drop (Suc (nat i)) vals"
        by (simp add: Cons_nth_drop_Suc)
      ultimately show ?thesis by (simp add: v_def)
    qed
    have "set16Bit_loop vals i len buf startChannel =
          set16Bit_loop vals (i + 1) len b2 (startChannel + 2)"
      using unf n2 by simp
    also have "\<dots> = Inr (take (nat (startChannel + 2)) b2
            @ bytes16 (take (nat (len - (i + 1))) (drop (nat (i + 1)) vals))
            @ drop (nat (startChannel + 2 + 2 * (len - (i + 1)))) b2)"
      by (rule ih [unfolded n2])
    also have "\<dots> = Inr (take (nat startChannel) buf
            @ bytes16 (take (nat (len - i)) (drop (nat i) vals))
            @ drop (nat (startChannel + 2 * (len - i))) buf)"
      unfolding tk dr vs by simp
    finally show ?thesis .
  qed
qed


lemma set16Bit_range_accept:
  assumes "0 \<le> startChannel" "0 < len" "startChannel + 2 * len \<le> 513"
    and "len \<le> int (length values)" "length (outputBuf' s) = 513"
    and "began' s \<longrightarrow> sendHandler' s"
  shows "set16Bit_range startChannel values len s =
         Inr (True, s\<lparr>outputBuf' := take (nat startChannel) (outputBuf' s)
                          @ bytes16 (take (nat len) values)
                          @ drop (nat (startChannel + 2 * len)) (outputBuf' s),
                calls := calls s @ lock_calls s\<rparr>)"
proof -
  have t: "int32 (len * 2) = len * 2"
    using assms by (intro int32_id) (simp add: is_int32_def)
  have i: "int32 (startChannel + len * 2) = startChannel + len * 2"
    using assms by (intro int32_id) (simp add: is_int32_def)
  have c: "set16Bit_loop values 0 len (outputBuf' s) startChannel =
        Inr (take (nat startChannel) (outputBuf' s) @ bytes16 (take (nat (len - 0)) (drop (nat 0) values))
          @ drop (nat (startChannel + 2 * (len - 0))) (outputBuf' s))"
    using assms by (intro set16Bit_loop_in_bounds) auto
  show ?thesis
    using assms i t
    by (simp add: set16Bit_range_def kMaxDMXPacketSize_def
        locked_buf [where g = "\<lambda>b. set16Bit_loop values 0 len b startChannel", OF assms(6) c])
qed

text \<open>
  The 16-bit range function doubles \<open>len\<close> in 32-bit arithmetic. From \<open>len = 2 ^ 31 - 256\<close>
  on, the product wraps around to a small negative number, the end index passes both tests
  for a suitable \<open>startChannel\<close>, and the loop, which counts up to the original \<open>len\<close>,
  runs off the end of the buffer.
\<close>

lemma set16Bit_loop_overrun:
  "0 \<le> startChannel \<Longrightarrow> startChannel \<le> int (length buf) \<Longrightarrow> length buf < 2 ^ 30 \<Longrightarrow>
   int (length buf) < startChannel + 2 * (len - i) \<Longrightarrow>
   set16Bit_loop values i len buf startChannel = Inl IndexOutOfBounds"
proof (induction "values" i len buf startChannel rule: set16Bit_loop.induct)
  case (1 vals i len buf startChannel)
  have lt: "i < len" using "1.prems"(2,4) by simp
  show ?case
  proof (cases "0 \<le> i \<and> i < int (length vals)")
    case False
    then show ?thesis using lt by (subst set16Bit_loop.simps) simp
  next
    case iv: True
    show ?thesis
    proof (cases "startChannel + 1 < int (length buf)")
      case False
      then show ?thesis using lt iv "1.prems"
        by (subst set16Bit_loop.simps) (auto simp: store_def int32_id is_int32_def)
    next
      case True
      define b1 where "b1 = buf[nat startChannel := ucast (drop_bit 8 (vals ! nat i))]"
      define b2 where "b2 = b1[nat (startChannel + 1) := ucast (vals ! nat i)]"
      have n1: "int32 (startChannel + 1) = startChannel + 1"
        using True "1.prems" by (intro int32_id) (simp add: is_int32_def)
      have n2: "int32 (int32 (startChannel + 1) + 1) = startChannel + 2"
        using True "1.prems" n1 by (simp add: int32_id is_int32_def)
      have s1: "store startChannel (ucast (drop_bit 8 (vals ! nat i))) buf = Inr b1"
        using True "1.prems" by (simp add: store_def b1_def)
      have s2: "store (int32 (startChannel + 1)) (ucast (vals ! nat i)) b1 = Inr b2"
        using True "1.prems" n1 by (simp add: store_def b1_def b2_def)
      have "set16Bit_loop vals (i + 1) len b2 (int32 (int32 (startChannel + 1) + 1)) =
            Inl IndexOutOfBounds"
        using True "1.prems" n2
        by (intro "1.IH" [OF lt _ s1 s2]) (simp_all add: iv b1_def b2_def)
      then show ?thesis using lt iv s1 s2
        by (subst set16Bit_loop.simps) simp
    qed
  qed
qed

lemma set16Bit_range_wrapped_length:
  assumes "length (outputBuf' s) = 513" "began' s \<longrightarrow> sendHandler' s"
  shows "set16Bit_range 3 values 2147483647 s = Inl IndexOutOfBounds"
proof -
  have "set16Bit_loop values 0 2147483647 (outputBuf' s) 3 = Inl IndexOutOfBounds"
    using assms by (intro set16Bit_loop_overrun) simp_all
  then show ?thesis
    using assms
    by (simp add: set16Bit_range_def kMaxDMXPacketSize_def int32_def locked_def
        disableIRQs_def handler_call_def)
qed


subsection \<open>Range writes\<close>

text \<open>
  Claim C1, with the limit the code checks. For 32-bit arguments, the range functions
  \<^verbatim>\<open>set(startChannel, values, len)\<close> and \<^verbatim>\<open>set16Bit(startChannel, values, len)\<close> return
  false and leave the whole instance, so every byte of the buffer, unchanged when
  \<open>startChannel\<close> or \<open>len\<close> is negative, when \<open>startChannel\<close> is 513 or more, or when
  \<open>len\<close> is positive and the end index is above 513: \<open>startChannel + len\<close> for the byte
  function, also where that sum overflows, and \<open>startChannel + 2 * len\<close> up to \<open>2 ^ 32\<close>
  for the 16-bit function. A call whose range lies within the 513 bytes returns true and
  writes exactly that range (given the values to read and, on a started instance, a
  handler for the critical section). \<^verbatim>\<open>set(-1, 5)\<close> and \<^verbatim>\<open>set(511, values, 3)\<close> fail.
\<close>

theorem range_writes_validate:
  assumes "is_int32 startChannel" "is_int32 len"
  shows
   "((startChannel < 0 \<or> len < 0 \<or> 513 \<le> startChannel \<or> (0 < len \<and> 513 < startChannel + len))
       \<longrightarrow> set_range startChannel values len s = Inr (False, s))
    \<and> ((startChannel < 0 \<or> len < 0 \<or> 513 \<le> startChannel
         \<or> (0 < len \<and> 513 < startChannel + 2 * len \<and> startChannel + 2 * len \<le> 2 ^ 32))
       \<longrightarrow> set16Bit_range startChannel values16 len s = Inr (False, s))
    \<and> (0 \<le> startChannel \<and> startChannel < 513 \<and> 0 \<le> len \<and> startChannel + len \<le> 513
         \<and> len \<le> int (length values) \<and> length (outputBuf' s) = 513
         \<and> (began' s \<longrightarrow> sendHandler' s)
       \<longrightarrow> (\<exists>s'. set_range startChannel values len s = Inr (True, s')
             \<and> outputBuf' s' = take (nat startChannel) (outputBuf' s) @ take (nat len) values
                                 @ drop (nat (startChannel + len)) (outputBuf' s)))
    \<and> (0 \<le> startChannel \<and> startChannel < 513 \<and> 0 \<le> len \<and> startChannel + 2 * len \<le> 513
         \<and> len \<le> int (length values16) \<and> length (outputBuf' s) = 513
         \<and> (began' s \<longrightarrow> sendHandler' s)
       \<longrightarrow> (\<exists>s'. set16Bit_range startChannel values16 len s = Inr (True, s')
             \<and> outputBuf' s' = take (nat startChannel) (outputBuf' s)
                                 @ bytes16 (take (nat len) values16)
                                 @ drop (nat (startChannel + 2 * len)) (outputBuf' s)))
    \<and> set_ch (- 1) 5 s = Inr (False, s)
    \<and> set_range 511 values 3 s = Inr (False, s)"
proof -
  have a: "(startChannel < 0 \<or> len < 0 \<or> 513 \<le> startChannel \<or> (0 < len \<and> 513 < startChannel + len))
       \<longrightarrow> set_range startChannel values len s = Inr (False, s)"
    using assms set_range_reject by blast
  have b: "(startChannel < 0 \<or> len < 0 \<or> 513 \<le> startChannel
         \<or> (0 < len \<and> 513 < startChannel + 2 * len \<and> startChannel + 2 * len \<le> 2 ^ 32))
       \<longrightarrow> set16Bit_range startChannel values16 len s = Inr (False, s)"
    using assms set16Bit_range_reject by blast
  have c: "0 \<le> startChannel \<and> startChannel < 513 \<and> 0 \<le> len \<and> startChannel + len \<le> 513
         \<and> len \<le> int (length values) \<and> length (outputBuf' s) = 513
         \<and> (began' s \<longrightarrow> sendHandler' s)
       \<longrightarrow> (\<exists>s'. set_range startChannel values len s = Inr (True, s')
             \<and> outputBuf' s' = take (nat startChannel) (outputBuf' s) @ take (nat len) values
                                 @ drop (nat (startChannel + len)) (outputBuf' s))"
  proof (cases "len = 0")
    case True
    then show ?thesis by (simp add: set_range_def kMaxDMXPacketSize_def)
  next
    case False
    show ?thesis
    proof (intro impI, elim conjE)
      assume h: "0 \<le> startChannel" "0 \<le> len" "startChannel + len \<le> 513"
        "len \<le> int (length values)" "length (outputBuf' s) = 513" "began' s \<longrightarrow> sendHandler' s"
      have "0 < len" using False h by simp
      from set_range_accept [OF h(1) this h(3-6)] show
        "\<exists>s'. set_range startChannel values len s = Inr (True, s')
             \<and> outputBuf' s' = take (nat startChannel) (outputBuf' s) @ take (nat len) values
                                 @ drop (nat (startChannel + len)) (outputBuf' s)"
        using h by (simp add: nat_add_distrib)
    qed
  qed
  have d: "0 \<le> startChannel \<and> startChannel < 513 \<and> 0 \<le> len \<and> startChannel + 2 * len \<le> 513
         \<and> len \<le> int (length values16) \<and> length (outputBuf' s) = 513
         \<and> (began' s \<longrightarrow> sendHandler' s)
       \<longrightarrow> (\<exists>s'. set16Bit_range startChannel values16 len s = Inr (True, s')
             \<and> outputBuf' s' = take (nat startChannel) (outputBuf' s)
                                 @ bytes16 (take (nat len) values16)
                                 @ drop (nat (startChannel + 2 * len)) (outputBuf' s))"
  proof (cases "len = 0")
    case True
    then show ?thesis by (simp add: set16Bit_range_def kMaxDMXPacketSize_def)
  next
    case False
    show ?thesis
    proof (intro impI, elim conjE)
      assume h: "0 \<le> startChannel" "0 \<le> len" "startChannel + 2 * len \<le> 513"
        "len \<le> int (length values16)" "length (outputBuf' s) = 513" "began' s \<longrightarrow> sendHandler' s"
      have "0 < len" using False h by simp
      from set16Bit_range_accept [OF h(1) this h(3-6)] show
        "\<exists>s'. set16Bit_range startChannel values16 len s = Inr (True, s')
             \<and> outputBuf' s' = take (nat startChannel) (outputBuf' s)
                                 @ bytes16 (take (nat len) values16)
                                 @ drop (nat (startChannel + 2 * len)) (outputBuf' s)"
        by simp
    qed
  qed
  have e: "set_ch (- 1) 5 s = Inr (False, s)"
    by (simp add: set_ch_def)
  have f: "set_range 511 values 3 s = Inr (False, s)"
    by (intro set_range_reject) (simp_all add: is_int32_def)
  show ?thesis using a b c d e f by blast
qed

text \<open>The theorem at \<open>startChannel = 511\<close> and \<open>512\<close> on a fresh instance.\<close>

theorem range_writes_validate_witness:
  "set_range 511 [1, 2, 3] 3 (Sender teensy32 0) = Inr (False, Sender teensy32 0)
   \<and> set16Bit_range 512 [0x1234] 1 (Sender teensy32 0) = Inr (False, Sender teensy32 0)
   \<and> (\<exists>s'. set_range 511 [7] 1 (Sender teensy32 0) = Inr (True, s')
          \<and> outputBuf' s' = replicate 511 0 @ [7, 0])
   \<and> (\<exists>s'. set16Bit_range 511 [0x1234] 1 (Sender teensy32 0) = Inr (True, s')
          \<and> outputBuf' s' = replicate 511 0 @ [0x12, 0x34])"
proof -
  have i: "is_int32 511" "is_int32 512" "is_int32 3" "is_int32 1"
    by (simp_all add: is_int32_def)
  have b: "outputBuf' (Sender teensy32 0) = replicate 513 0" "\<not> began' (Sender teensy32 0)"
    by (simp_all add: Sender_def setBreakTime_def setMABTime_def Let_def)
  have "set_range 511 [1, 2, 3] 3 (Sender teensy32 0) = Inr (False, Sender teensy32 0)"
    using range_writes_validate [OF i(1) i(3), of "[1, 2, 3]" "Sender teensy32 0" "[]"] by simp
  moreover have "set16Bit_range 512 [0x1234] 1 (Sender teensy32 0) = Inr (False, Sender teensy32 0)"
    using range_writes_validate [OF i(2) i(4), of "[]" "Sender teensy32 0" "[0x1234]"] by simp
  moreover have "\<exists>s'. set_range 511 [7] 1 (Sender teensy32 0) = Inr (True, s')
          \<and> outputBuf' s' = replicate 511 0 @ [7, 0]"
    using range_writes_validate [OF i(1) i(4), of "[7]" "Sender teensy32 0" "[]"] b by simp
  moreover have "\<exists>s'. set16Bit_range 511 [0x1234] 1 (Sender teensy32 0) = Inr (True, s')
          \<and> outputBuf' s' = replicate 511 0 @ [0x12, 0x34]"
  proof -
    obtain s' where r: "set16Bit_range 511 [0x1234] 1 (Sender teensy32 0) = Inr (True, s')"
      and o: "outputBuf' s' = replicate 511 0 @ [0x12, ucast (0x1234 :: uint16_t)]"
      using range_writes_validate [OF i(1) i(4), of "[]" "Sender teensy32 0" "[0x1234]"] b
      by auto
    have "ucast (0x1234 :: uint16_t) = (0x34 :: uint8_t)" by simp
    with r o show ?thesis by metis
  qed
  ultimately show ?thesis by blast
qed

text \<open>
  The limit is 513, the size of the buffer, not 512: a range that ends at index 513 is
  written.
\<close>

theorem range_limit_counterexample:
  "(512 :: int) < 511 + 2
   \<and> set_range 511 [1, 2] 2 (Sender teensy32 0) =
       Inr (True, (Sender teensy32 0)\<lparr>outputBuf' := replicate 511 0 @ [1, 2]\<rparr>)
   \<and> outputBuf' (Sender teensy32 0) \<noteq> replicate 511 0 @ [1, 2]"
proof -
  have b: "outputBuf' (Sender teensy32 0) = replicate 513 0" "\<not> began' (Sender teensy32 0)"
    by (simp_all add: Sender_def setBreakTime_def setMABTime_def Let_def)
  have "set_range 511 [1, 2] 2 (Sender teensy32 0) =
       Inr (True, (Sender teensy32 0)\<lparr>outputBuf' := replicate 511 0 @ [1, 2]\<rparr>)"
    using b by (subst set_range_accept) (simp_all add: lock_calls_def)
  moreover have "replicate 513 (0 :: uint8_t) ! 511 \<noteq> (replicate 511 0 @ [1, 2]) ! 511"
    by (simp add: nth_append)
  then have "outputBuf' (Sender teensy32 0) \<noteq> replicate 511 0 @ [1, 2]"
    using b by metis
  ultimately show ?thesis by simp
qed


subsection \<open>Adjusted BREAK and MAB times\<close>

text \<open>
  Claim C4, in 32-bit arithmetic. \<^verbatim>\<open>setBreakTime(t)\<close> stores \<open>t\<close> and makes the adjusted
  BREAK time \<open>t\<close> plus the target's correction constant modulo \<open>2 ^ 32\<close>, which is the sum
  itself whenever the sum fits in 32 bits. \<^verbatim>\<open>setMABTime(t)\<close> stores \<open>t\<close> and makes the
  adjusted MAB time \<open>t\<close> minus the constant when \<open>t\<close> is at least the constant, and 0
  otherwise.
\<close>

theorem adjusted_times:
  "breakTime' (setBreakTime cfg t s) = t
   \<and> unat (adjustedBreakTime' (setBreakTime cfg t s)) =
       (unat t + unat (kBreakTimerAdjust cfg)) mod 2 ^ 32
   \<and> (unat t + unat (kBreakTimerAdjust cfg) < 2 ^ 32 \<longrightarrow>
        unat (adjustedBreakTime' (setBreakTime cfg t s)) = unat t + unat (kBreakTimerAdjust cfg))
   \<and> mabTime' (setMABTime cfg t s) = t
   \<and> unat (adjustedMABTime' (setMABTime cfg t s)) =
       (if unat (kMABTimerAdjust cfg) \<le> unat t then unat t - unat (kMABTimerAdjust cfg) else 0)"
proof -
  have a: "unat (adjustedBreakTime' (setBreakTime cfg t s)) =
       (unat t + unat (kBreakTimerAdjust cfg)) mod 2 ^ 32"
    by (simp add: setBreakTime_def unat_word_ariths)
  have b: "unat (adjustedMABTime' (setMABTime cfg t s)) =
       (if unat (kMABTimerAdjust cfg) \<le> unat t then unat t - unat (kMABTimerAdjust cfg) else 0)"
    by (simp add: setMABTime_def Let_def unat_sub word_le_nat_alt word_less_nat_alt)
  have c: "breakTime' (setBreakTime cfg t s) = t" "mabTime' (setMABTime cfg t s) = t"
    by (simp_all add: setBreakTime_def setMABTime_def Let_def)
  show ?thesis using a b c by simp
qed

text \<open>On a Teensy 3.2 (constants 1 and 7): 180 gives 181, 20 gives 13, 3 gives 0.\<close>

theorem adjusted_times_witness:
  "unat (180 :: uint32_t) + unat (kBreakTimerAdjust teensy32) < 2 ^ 32
   \<and> adjustedBreakTime' (setBreakTime teensy32 180 (Sender teensy32 0)) = 181
   \<and> adjustedMABTime' (setMABTime teensy32 20 (Sender teensy32 0)) = 13
   \<and> adjustedMABTime' (setMABTime teensy32 3 (Sender teensy32 0)) = 0"
proof -
  have k: "unat (kBreakTimerAdjust teensy32) = 1" "unat (kMABTimerAdjust teensy32) = 7"
    by (simp_all add: teensy32_def)
  have "unat (adjustedBreakTime' (setBreakTime teensy32 180 (Sender teensy32 0))) = unat (181 :: uint32_t)"
    using adjusted_times [of teensy32 180 "Sender teensy32 0"] k by simp
  moreover have "unat (adjustedMABTime' (setMABTime teensy32 20 (Sender teensy32 0))) = unat (13 :: uint32_t)"
    using adjusted_times [of teensy32 20 "Sender teensy32 0"] k by simp
  moreover have "unat (adjustedMABTime' (setMABTime teensy32 3 (Sender teensy32 0))) = unat (0 :: uint32_t)"
    using adjusted_times [of teensy32 3 "Sender teensy32 0"] k by simp
  ultimately show ?thesis using k by (simp add: word_unat_eq_iff)
qed

text \<open>
  The sum wraps: on a Teensy 3.2 the largest request gets the adjusted BREAK time 0, not
  the request plus 1.
\<close>

theorem adjusted_break_time_counterexample:
  "adjustedBreakTime' (setBreakTime teensy32 0xFFFFFFFF (Sender teensy32 0)) = 0
   \<and> unat (adjustedBreakTime' (setBreakTime teensy32 0xFFFFFFFF (Sender teensy32 0)))
       \<noteq> unat (0xFFFFFFFF :: uint32_t) + unat (kBreakTimerAdjust teensy32)"
  by (simp add: setBreakTime_def teensy32_def)

subsection \<open>The single-byte write\<close>

text \<open>
  Claim C10. On the 513-byte buffer, \<^verbatim>\<open>set(channel, value)\<close> returns true and stores the
  value in slot \<open>channel\<close> for every channel from 0 (the start code) to 512, and returns
  false without any change otherwise. Nothing but the buffer changes: it makes no call on
  the handler, so it does not enter the critical section, whereas the 16-bit write of a
  started instance disables and re-enables the interrupts around its two stores.
\<close>

theorem set_single_channel:
  "length (outputBuf' s) = 513 \<Longrightarrow>
   set_ch channel v s =
     (if 0 \<le> channel \<and> channel < 513
      then Inr (True, s\<lparr>outputBuf' := (outputBuf' s)[nat channel := v]\<rparr>)
      else Inr (False, s))
   \<and> (0 \<le> channel \<and> channel < 513 \<longrightarrow> (outputBuf' s)[nat channel := v] ! nat channel = v)
   \<and> (began' s \<and> sendHandler' s \<and> 0 \<le> channel \<and> channel < 512 \<longrightarrow>
        (\<exists>s'. set16Bit channel w s = Inr (True, s')
           \<and> calls s' = calls s @ [HandlerSetIRQsEnabled False, HandlerSetIRQsEnabled True]))"
  by (auto simp: set_ch_def set16Bit_def store_def kMaxDMXPacketSize_def locked_def
      disableIRQs_def enableIRQs_def handler_call_def int32_def)

text \<open>Channels 0, 512, 513 and \<open>- 1\<close> on a started instance, and a 16-bit write.\<close>

theorem set_single_channel_witness:
  "set_ch 0 7 ((Sender teensy32 0)\<lparr>began' := True\<rparr>) =
     Inr (True, (Sender teensy32 0)\<lparr>began' := True, outputBuf' := 7 # replicate 512 0\<rparr>)
   \<and> set_ch 512 9 ((Sender teensy32 0)\<lparr>began' := True\<rparr>) =
     Inr (True, (Sender teensy32 0)\<lparr>began' := True, outputBuf' := replicate 512 0 @ [9]\<rparr>)
   \<and> set_ch 513 9 ((Sender teensy32 0)\<lparr>began' := True\<rparr>) =
     Inr (False, (Sender teensy32 0)\<lparr>began' := True\<rparr>)
   \<and> set_ch (- 1) 9 ((Sender teensy32 0)\<lparr>began' := True\<rparr>) =
     Inr (False, (Sender teensy32 0)\<lparr>began' := True\<rparr>)
   \<and> (\<exists>s'. set16Bit 0 0x1234 ((Sender teensy32 0)\<lparr>began' := True\<rparr>) = Inr (True, s')
         \<and> calls s' = [HandlerSetIRQsEnabled False, HandlerSetIRQsEnabled True])"
proof -
  let ?s = "(Sender teensy32 0)\<lparr>began' := True\<rparr>"
  have b: "outputBuf' ?s = replicate 513 0" "began' ?s" "sendHandler' ?s" "calls ?s = []"
    by (simp_all add: Sender_def setBreakTime_def setMABTime_def Let_def teensy32_def)
  have l: "length (outputBuf' ?s) = 513" using b by simp
  have u: "(replicate 513 (0 :: uint8_t))[0 := 7] = 7 # replicate 512 0"
    "(replicate 513 (0 :: uint8_t))[512 := 9] = replicate 512 0 @ [9]"
    by (simp_all add: list_eq_iff_nth_eq nth_list_update nth_append nth_Cons')
  show ?thesis
    using set_single_channel [OF l, of 0 7 "0x1234"] set_single_channel [OF l, of 512 9 0]
      set_single_channel [OF l, of 513 9 0] set_single_channel [OF l, of "- 1" 9 0] b u
    by simp
qed

subsection \<open>BREAK and MAB times in serial mode\<close>


lemma bits_unsupported:
  "\<not> format_supported cfg f \<Longrightarrow> breakTime_bits cfg f = None \<and> mabTime_bits cfg f = None"
  unfolding format_supported_def breakTime_bits_def mabTime_bits_def by auto

lemma unat_bit_time:
  fixes t baud :: uint32_t
  assumes "unat t \<le> 11"
  shows "unat ((t * 1000000) div baud) = unat t * 1000000 div unat baud"
proof -
  have "unat t * unat (1000000 :: uint32_t) < 2 ^ 32"
    using assms by simp
  then have "unat (t * 1000000) = unat t * 1000000"
    by (simp add: unat_mult_lem [THEN iffD1])
  then show ?thesis by (simp add: unat_div)
qed


lemma distinct_rearranged:
  "distinct xs \<Longrightarrow> set ys = set xs \<Longrightarrow> length ys = length xs \<Longrightarrow> distinct ys"
  by (metis card_distinct distinct_card)

text \<open>Both switches as tables from case label to bit count, in the order of the source.\<close>

lemma breakTime_bits_table:
  "breakTime_bits cfg f =
     map_of ([(SERIAL_7E1 cfg, 9), (SERIAL_8N1 cfg, 9), (SERIAL_8O1 cfg, 9), (SERIAL_8N2 cfg, 9),
              (SERIAL_8E1 cfg, 10)]
             @ (if has_2stop_parity cfg then [(SERIAL_8E2 cfg, 10), (SERIAL_8O2 cfg, 9)] else [])
             @ [(SERIAL_7O1 cfg, 8)]
             @ (if SERIAL_9BIT_SUPPORT cfg
                then [(SERIAL_9N1 cfg, 10), (SERIAL_9O1 cfg, 10), (SERIAL_9E1 cfg, 11)] else [])) f"
  by (simp add: breakTime_bits_def)

lemma mabTime_bits_table:
  "mabTime_bits cfg f =
     map_of ([(SERIAL_7E1 cfg, 1), (SERIAL_8N1 cfg, 1), (SERIAL_8E1 cfg, 1), (SERIAL_7O1 cfg, 2),
              (SERIAL_8O1 cfg, 2), (SERIAL_8N2 cfg, 2)]
             @ (if has_2stop_parity cfg then [(SERIAL_8E2 cfg, 2), (SERIAL_8O2 cfg, 3)] else [])
             @ (if SERIAL_9BIT_SUPPORT cfg
                then [(SERIAL_9N1 cfg, 1), (SERIAL_9E1 cfg, 1), (SERIAL_9O1 cfg, 2)] else [])) f"
  by (simp add: mabTime_bits_def)

lemma breakTime_keys_distinct:
  assumes "distinct (case_labels cfg)"
  shows "distinct (map fst
            ([(SERIAL_7E1 cfg, 9 :: uint32_t), (SERIAL_8N1 cfg, 9), (SERIAL_8O1 cfg, 9),
              (SERIAL_8N2 cfg, 9), (SERIAL_8E1 cfg, 10)]
             @ (if has_2stop_parity cfg then [(SERIAL_8E2 cfg, 10), (SERIAL_8O2 cfg, 9)] else [])
             @ [(SERIAL_7O1 cfg, 8)]
             @ (if SERIAL_9BIT_SUPPORT cfg
                then [(SERIAL_9N1 cfg, 10), (SERIAL_9O1 cfg, 10), (SERIAL_9E1 cfg, 11)] else [])))"
    (is "distinct ?ks")
proof (rule distinct_rearranged [OF assms])
  show "set ?ks = set (case_labels cfg)"
    by (cases "has_2stop_parity cfg"; cases "SERIAL_9BIT_SUPPORT cfg")
      (simp_all only: case_labels_def if_True if_False list.map fst_conv append.simps list.set
        map_append set_append, blast+)
  show "length ?ks = length (case_labels cfg)"
    by (simp add: case_labels_def)
qed

lemma mabTime_keys_distinct:
  assumes "distinct (case_labels cfg)"
  shows "distinct (map fst
            ([(SERIAL_7E1 cfg, 1 :: uint32_t), (SERIAL_8N1 cfg, 1), (SERIAL_8E1 cfg, 1),
              (SERIAL_7O1 cfg, 2), (SERIAL_8O1 cfg, 2), (SERIAL_8N2 cfg, 2)]
             @ (if has_2stop_parity cfg then [(SERIAL_8E2 cfg, 2), (SERIAL_8O2 cfg, 3)] else [])
             @ (if SERIAL_9BIT_SUPPORT cfg
                then [(SERIAL_9N1 cfg, 1), (SERIAL_9E1 cfg, 1), (SERIAL_9O1 cfg, 2)] else [])))"
    (is "distinct ?ks")
proof (rule distinct_rearranged [OF assms])
  show "set ?ks = set (case_labels cfg)"
    by (cases "has_2stop_parity cfg"; cases "SERIAL_9BIT_SUPPORT cfg")
      (simp_all only: case_labels_def if_True if_False list.map fst_conv append.simps list.set
        map_append set_append, blast+)
  show "length ?ks = length (case_labels cfg)"
    by (simp add: case_labels_def)
qed

lemma breakTime_bits_labels:
  assumes "distinct (case_labels cfg)"
  shows "breakTime_bits cfg (SERIAL_7E1 cfg) = Some 9"
    and "breakTime_bits cfg (SERIAL_7O1 cfg) = Some 8"
    and "breakTime_bits cfg (SERIAL_8N1 cfg) = Some 9"
    and "breakTime_bits cfg (SERIAL_8E1 cfg) = Some 10"
    and "breakTime_bits cfg (SERIAL_8O1 cfg) = Some 9"
    and "breakTime_bits cfg (SERIAL_8N2 cfg) = Some 9"
    and "has_2stop_parity cfg \<Longrightarrow> breakTime_bits cfg (SERIAL_8E2 cfg) = Some 10"
    and "has_2stop_parity cfg \<Longrightarrow> breakTime_bits cfg (SERIAL_8O2 cfg) = Some 9"
    and "SERIAL_9BIT_SUPPORT cfg \<Longrightarrow> breakTime_bits cfg (SERIAL_9N1 cfg) = Some 10"
    and "SERIAL_9BIT_SUPPORT cfg \<Longrightarrow> breakTime_bits cfg (SERIAL_9E1 cfg) = Some 11"
    and "SERIAL_9BIT_SUPPORT cfg \<Longrightarrow> breakTime_bits cfg (SERIAL_9O1 cfg) = Some 10"
  unfolding breakTime_bits_table map_of_eq_Some_iff [OF breakTime_keys_distinct [OF assms]]
  by simp_all

lemma mabTime_bits_labels:
  assumes "distinct (case_labels cfg)"
  shows "mabTime_bits cfg (SERIAL_7E1 cfg) = Some 1"
    and "mabTime_bits cfg (SERIAL_7O1 cfg) = Some 2"
    and "mabTime_bits cfg (SERIAL_8N1 cfg) = Some 1"
    and "mabTime_bits cfg (SERIAL_8E1 cfg) = Some 1"
    and "mabTime_bits cfg (SERIAL_8O1 cfg) = Some 2"
    and "mabTime_bits cfg (SERIAL_8N2 cfg) = Some 2"
    and "has_2stop_parity cfg \<Longrightarrow> mabTime_bits cfg (SERIAL_8E2 cfg) = Some 2"
    and "has_2stop_parity cfg \<Longrightarrow> mabTime_bits cfg (SERIAL_8O2 cfg) = Some 3"
    and "SERIAL_9BIT_SUPPORT cfg \<Longrightarrow> mabTime_bits cfg (SERIAL_9N1 cfg) = Some 1"
    and "SERIAL_9BIT_SUPPORT cfg \<Longrightarrow> mabTime_bits cfg (SERIAL_9E1 cfg) = Some 1"
    and "SERIAL_9BIT_SUPPORT cfg \<Longrightarrow> mabTime_bits cfg (SERIAL_9O1 cfg) = Some 2"
  unfolding mabTime_bits_table map_of_eq_Some_iff [OF mabTime_keys_distinct [OF assms]]
  by simp_all

lemma format_supported_labels:
  "format_supported cfg f \<longleftrightarrow> f \<in> set (case_labels cfg)"
  by (auto simp: format_supported_def case_labels_def)

text \<open>What the two functions return in serial mode once the switch has chosen bit counts.\<close>

lemma serial_times_of_bits:
  fixes t m :: nat
  assumes "\<not> breakUseTimer' s" and "breakBaud' s \<noteq> 0"
    and "breakTime_bits cfg (breakFormat' s AND NOT (0x20 OR 0x10)) = Some (of_nat t)"
    and "mabTime_bits cfg (breakFormat' s AND NOT (0x20 OR 0x10)) = Some (of_nat m)"
    and "t \<le> 11" and "m \<le> 11"
  shows "\<exists>b r. breakTime cfg s = Inr b \<and> unat b = t * 1000000 div unat (breakBaud' s)
           \<and> mabTime cfg s = Inr r \<and> unat r = m * 1000000 div unat (breakBaud' s)"
proof -
  have t: "unat (of_nat t :: uint32_t) = t" using assms(5) by (simp add: unat_of_nat)
  have m: "unat (of_nat m :: uint32_t) = m" using assms(6) by (simp add: unat_of_nat)
  have "unat ((of_nat t :: uint32_t) * 1000000 div breakBaud' s)
          = t * 1000000 div unat (breakBaud' s)"
    using unat_bit_time [of "of_nat t" "breakBaud' s"] t assms(5) by simp
  moreover have "unat ((of_nat m :: uint32_t) * 1000000 div breakBaud' s)
          = m * 1000000 div unat (breakBaud' s)"
    using unat_bit_time [of "of_nat m" "breakBaud' s"] m assms(6) by simp
  ultimately show ?thesis
    using assms(1-4)
    by (simp add: breakTime_def mabTime_def isBreakUseTimerNotSerial_def breakSerialFormat_def
        breakSerialBaud_def format_bits_def kSerialFormatTXINVBit_def kSerialFormatRXINVBit_def)
qed

text \<open>
  Claim C5. On a target whose case labels are pairwise different (the switch compiles), in
  serial mode (timer mode off) with a nonzero BREAK baud rate, the stored format with its two
  inversion bits (0x20, 0x10) masked off selects the times, label by label:
  \<^verbatim>\<open>breakTime()\<close> is \<open>t * 1000000 div baud\<close> and \<^verbatim>\<open>mabTime()\<close> is \<open>m * 1000000 div baud\<close>
  (no wrap-around in 32 bits) with \<open>(t, m)\<close> equal to (9, 1) for 7E1, (8, 2) for 7O1,
  (9, 1) for 8N1, (10, 1) for 8E1, (9, 2) for 8O1, (9, 2) for 8N2, where the target has them
  (10, 2) for 8E2 and (9, 3) for 8O2, and where it has 9-bit formats (10, 1) for 9N1,
  (11, 1) for 9E1 and (10, 2) for 9O1. For a masked format that is no case label the
  times are the defaults 180 and 20, whatever the baud rate. In serial mode neither time
  depends on the stored durations; in timer mode they are the stored durations.
\<close>

theorem serial_break_times:
  assumes "distinct (case_labels cfg)"
  shows
  "(\<forall>s. \<not> breakUseTimer' s \<and> breakBaud' s \<noteq> 0 \<longrightarrow>
      (let f = breakFormat' s AND NOT (0x20 OR 0x10);
           times = (\<lambda>t m :: nat. \<exists>b r.
              breakTime cfg s = Inr b \<and> unat b = t * 1000000 div unat (breakBaud' s)
              \<and> mabTime cfg s = Inr r \<and> unat r = m * 1000000 div unat (breakBaud' s))
       in (f = SERIAL_7E1 cfg \<longrightarrow> times 9 1)
        \<and> (f = SERIAL_7O1 cfg \<longrightarrow> times 8 2)
        \<and> (f = SERIAL_8N1 cfg \<longrightarrow> times 9 1)
        \<and> (f = SERIAL_8E1 cfg \<longrightarrow> times 10 1)
        \<and> (f = SERIAL_8O1 cfg \<longrightarrow> times 9 2)
        \<and> (f = SERIAL_8N2 cfg \<longrightarrow> times 9 2)
        \<and> (has_2stop_parity cfg \<and> f = SERIAL_8E2 cfg \<longrightarrow> times 10 2)
        \<and> (has_2stop_parity cfg \<and> f = SERIAL_8O2 cfg \<longrightarrow> times 9 3)
        \<and> (SERIAL_9BIT_SUPPORT cfg \<and> f = SERIAL_9N1 cfg \<longrightarrow> times 10 1)
        \<and> (SERIAL_9BIT_SUPPORT cfg \<and> f = SERIAL_9E1 cfg \<longrightarrow> times 11 1)
        \<and> (SERIAL_9BIT_SUPPORT cfg \<and> f = SERIAL_9O1 cfg \<longrightarrow> times 10 2)))
   \<and> (\<forall>s. \<not> breakUseTimer' s \<and> breakFormat' s AND NOT (0x20 OR 0x10) \<notin> set (case_labels cfg) \<longrightarrow>
         breakTime cfg s = Inr 180 \<and> mabTime cfg s = Inr 20)
   \<and> (\<forall>s x y. \<not> breakUseTimer' s \<longrightarrow>
         breakTime cfg (s\<lparr>breakTime' := x, mabTime' := y\<rparr>) = breakTime cfg s
         \<and> mabTime cfg (s\<lparr>breakTime' := x, mabTime' := y\<rparr>) = mabTime cfg s)
   \<and> (\<forall>s. breakUseTimer' s \<longrightarrow>
         breakTime cfg s = Inr (breakTime' s) \<and> mabTime cfg s = Inr (mabTime' s))"
proof -
  note bl = breakTime_bits_labels [OF assms] and ml = mabTime_bits_labels [OF assms]
  have table: "(let f = breakFormat' s AND NOT (0x20 OR 0x10);
           times = (\<lambda>t m :: nat. \<exists>b r.
              breakTime cfg s = Inr b \<and> unat b = t * 1000000 div unat (breakBaud' s)
              \<and> mabTime cfg s = Inr r \<and> unat r = m * 1000000 div unat (breakBaud' s))
       in (f = SERIAL_7E1 cfg \<longrightarrow> times 9 1)
        \<and> (f = SERIAL_7O1 cfg \<longrightarrow> times 8 2)
        \<and> (f = SERIAL_8N1 cfg \<longrightarrow> times 9 1)
        \<and> (f = SERIAL_8E1 cfg \<longrightarrow> times 10 1)
        \<and> (f = SERIAL_8O1 cfg \<longrightarrow> times 9 2)
        \<and> (f = SERIAL_8N2 cfg \<longrightarrow> times 9 2)
        \<and> (has_2stop_parity cfg \<and> f = SERIAL_8E2 cfg \<longrightarrow> times 10 2)
        \<and> (has_2stop_parity cfg \<and> f = SERIAL_8O2 cfg \<longrightarrow> times 9 3)
        \<and> (SERIAL_9BIT_SUPPORT cfg \<and> f = SERIAL_9N1 cfg \<longrightarrow> times 10 1)
        \<and> (SERIAL_9BIT_SUPPORT cfg \<and> f = SERIAL_9E1 cfg \<longrightarrow> times 11 1)
        \<and> (SERIAL_9BIT_SUPPORT cfg \<and> f = SERIAL_9O1 cfg \<longrightarrow> times 10 2))"
    if s: "\<not> breakUseTimer' s" "breakBaud' s \<noteq> 0" for s
  proof -
    have row: "\<exists>b r. breakTime cfg s = Inr b \<and> unat b = t * 1000000 div unat (breakBaud' s)
           \<and> mabTime cfg s = Inr r \<and> unat r = m * 1000000 div unat (breakBaud' s)"
      if "breakFormat' s AND NOT (0x20 OR 0x10) = l"
        "breakTime_bits cfg l = Some (of_nat t)" "mabTime_bits cfg l = Some (of_nat m)"
        "t \<le> 11" "m \<le> 11" for l and t m :: nat
      using serial_times_of_bits [OF s, of cfg t m] that by simp
    show ?thesis
      unfolding Let_def
    proof (intro conjI impI; (elim conjE)?)
      assume "breakFormat' s AND NOT (0x20 OR 0x10) = SERIAL_7E1 cfg"
      then show "\<exists>b r. breakTime cfg s = Inr b \<and> unat b = 9 * 1000000 div unat (breakBaud' s)
           \<and> mabTime cfg s = Inr r \<and> unat r = 1 * 1000000 div unat (breakBaud' s)"
        using row [of "SERIAL_7E1 cfg" 9 1] bl(1) ml(1) by simp
    next
      assume "breakFormat' s AND NOT (0x20 OR 0x10) = SERIAL_7O1 cfg"
      then show "\<exists>b r. breakTime cfg s = Inr b \<and> unat b = 8 * 1000000 div unat (breakBaud' s)
           \<and> mabTime cfg s = Inr r \<and> unat r = 2 * 1000000 div unat (breakBaud' s)"
        using row [of "SERIAL_7O1 cfg" 8 2] bl(2) ml(2) by simp
    next
      assume "breakFormat' s AND NOT (0x20 OR 0x10) = SERIAL_8N1 cfg"
      then show "\<exists>b r. breakTime cfg s = Inr b \<and> unat b = 9 * 1000000 div unat (breakBaud' s)
           \<and> mabTime cfg s = Inr r \<and> unat r = 1 * 1000000 div unat (breakBaud' s)"
        using row [of "SERIAL_8N1 cfg" 9 1] bl(3) ml(3) by simp
    next
      assume "breakFormat' s AND NOT (0x20 OR 0x10) = SERIAL_8E1 cfg"
      then show "\<exists>b r. breakTime cfg s = Inr b \<and> unat b = 10 * 1000000 div unat (breakBaud' s)
           \<and> mabTime cfg s = Inr r \<and> unat r = 1 * 1000000 div unat (breakBaud' s)"
        using row [of "SERIAL_8E1 cfg" 10 1] bl(4) ml(4) by simp
    next
      assume "breakFormat' s AND NOT (0x20 OR 0x10) = SERIAL_8O1 cfg"
      then show "\<exists>b r. breakTime cfg s = Inr b \<and> unat b = 9 * 1000000 div unat (breakBaud' s)
           \<and> mabTime cfg s = Inr r \<and> unat r = 2 * 1000000 div unat (breakBaud' s)"
        using row [of "SERIAL_8O1 cfg" 9 2] bl(5) ml(5) by simp
    next
      assume "breakFormat' s AND NOT (0x20 OR 0x10) = SERIAL_8N2 cfg"
      then show "\<exists>b r. breakTime cfg s = Inr b \<and> unat b = 9 * 1000000 div unat (breakBaud' s)
           \<and> mabTime cfg s = Inr r \<and> unat r = 2 * 1000000 div unat (breakBaud' s)"
        using row [of "SERIAL_8N2 cfg" 9 2] bl(6) ml(6) by simp
    next
      assume "has_2stop_parity cfg" "breakFormat' s AND NOT (0x20 OR 0x10) = SERIAL_8E2 cfg"
      then show "\<exists>b r. breakTime cfg s = Inr b \<and> unat b = 10 * 1000000 div unat (breakBaud' s)
           \<and> mabTime cfg s = Inr r \<and> unat r = 2 * 1000000 div unat (breakBaud' s)"
        using row [of "SERIAL_8E2 cfg" 10 2] bl(7) ml(7) by simp
    next
      assume "has_2stop_parity cfg" "breakFormat' s AND NOT (0x20 OR 0x10) = SERIAL_8O2 cfg"
      then show "\<exists>b r. breakTime cfg s = Inr b \<and> unat b = 9 * 1000000 div unat (breakBaud' s)
           \<and> mabTime cfg s = Inr r \<and> unat r = 3 * 1000000 div unat (breakBaud' s)"
        using row [of "SERIAL_8O2 cfg" 9 3] bl(8) ml(8) by simp
    next
      assume "SERIAL_9BIT_SUPPORT cfg" "breakFormat' s AND NOT (0x20 OR 0x10) = SERIAL_9N1 cfg"
      then show "\<exists>b r. breakTime cfg s = Inr b \<and> unat b = 10 * 1000000 div unat (breakBaud' s)
           \<and> mabTime cfg s = Inr r \<and> unat r = 1 * 1000000 div unat (breakBaud' s)"
        using row [of "SERIAL_9N1 cfg" 10 1] bl(9) ml(9) by simp
    next
      assume "SERIAL_9BIT_SUPPORT cfg" "breakFormat' s AND NOT (0x20 OR 0x10) = SERIAL_9E1 cfg"
      then show "\<exists>b r. breakTime cfg s = Inr b \<and> unat b = 11 * 1000000 div unat (breakBaud' s)
           \<and> mabTime cfg s = Inr r \<and> unat r = 1 * 1000000 div unat (breakBaud' s)"
        using row [of "SERIAL_9E1 cfg" 11 1] bl(10) ml(10) by simp
    next
      assume "SERIAL_9BIT_SUPPORT cfg" "breakFormat' s AND NOT (0x20 OR 0x10) = SERIAL_9O1 cfg"
      then show "\<exists>b r. breakTime cfg s = Inr b \<and> unat b = 10 * 1000000 div unat (breakBaud' s)
           \<and> mabTime cfg s = Inr r \<and> unat r = 2 * 1000000 div unat (breakBaud' s)"
        using row [of "SERIAL_9O1 cfg" 10 2] bl(11) ml(11) by simp
    qed
  qed
  have dflt: "breakTime cfg s = Inr 180 \<and> mabTime cfg s = Inr 20"
    if "\<not> breakUseTimer' s" "breakFormat' s AND NOT (0x20 OR 0x10) \<notin> set (case_labels cfg)" for s
    using that bits_unsupported [of cfg "breakFormat' s AND NOT (0x20 OR 0x10)"]
    by (simp add: format_supported_labels breakTime_def mabTime_def isBreakUseTimerNotSerial_def
        breakSerialFormat_def kDefaultBreakTime_def kDefaultMABTime_def format_bits_def
        kSerialFormatTXINVBit_def kSerialFormatRXINVBit_def)
  have indep: "breakTime cfg (s\<lparr>breakTime' := x, mabTime' := y\<rparr>) = breakTime cfg s
         \<and> mabTime cfg (s\<lparr>breakTime' := x, mabTime' := y\<rparr>) = mabTime cfg s"
    if "\<not> breakUseTimer' s" for s x y
    using that
    by (simp add: breakTime_def mabTime_def isBreakUseTimerNotSerial_def breakSerialFormat_def
        breakSerialBaud_def split: option.splits)
  have timer: "breakTime cfg s = Inr (breakTime' s) \<and> mabTime cfg s = Inr (mabTime' s)"
    if "breakUseTimer' s" for s
    using that by (simp add: breakTime_def mabTime_def isBreakUseTimerNotSerial_def)
  show ?thesis
    using table dflt indep timer by blast
qed

text \<open>
  A Teensy 3.2 with formats whose times differ from the defaults: 8E1 with the RX inversion
  bit set (0x16) and 7O1 (0x03) at 50000 baud, 8N2 (0x04) at 125000 baud, and the word 1,
  which is no case label.
\<close>

theorem serial_break_times_witness:
  "distinct (case_labels teensy32)
   \<and> breakTime teensy32 ((Sender teensy32 0)\<lparr>breakFormat' := 0x16\<rparr>) = Inr 200
   \<and> mabTime teensy32 ((Sender teensy32 0)\<lparr>breakFormat' := 0x16\<rparr>) = Inr 20
   \<and> breakTime teensy32 ((Sender teensy32 0)\<lparr>breakFormat' := 0x03\<rparr>) = Inr 160
   \<and> mabTime teensy32 ((Sender teensy32 0)\<lparr>breakFormat' := 0x03\<rparr>) = Inr 40
   \<and> breakTime teensy32 ((Sender teensy32 0)\<lparr>breakFormat' := 0x04, breakBaud' := 125000\<rparr>) = Inr 72
   \<and> mabTime teensy32 ((Sender teensy32 0)\<lparr>breakFormat' := 0x04, breakBaud' := 125000\<rparr>) = Inr 16
   \<and> 1 \<notin> set (case_labels teensy32)
   \<and> breakTime teensy32 ((Sender teensy32 0)\<lparr>breakFormat' := 1\<rparr>) = Inr 180
   \<and> mabTime teensy32 ((Sender teensy32 0)\<lparr>breakFormat' := 1\<rparr>) = Inr 20"
proof -
  let ?s = "Sender teensy32 0"
  have d: "distinct (case_labels teensy32)" "1 \<notin> set (case_labels teensy32)"
    by (simp_all add: case_labels_def teensy32_def)
  note times = serial_break_times [OF d(1)]
  have s: "\<not> breakUseTimer' ?s" "breakBaud' ?s = 50000"
    by (simp_all add: Sender_def setBreakTime_def setMABTime_def Let_def kDefaultBreakBaud_def)
  have word: "b = w" if "unat b = n" "unat w = n" for b w :: uint32_t and n
    using that by (simp add: word_unat_eq_iff)
  have a: "breakTime teensy32 (?s\<lparr>breakFormat' := 0x16\<rparr>) = Inr 200
      \<and> mabTime teensy32 (?s\<lparr>breakFormat' := 0x16\<rparr>) = Inr 20"
  proof -
    have f: "breakFormat' (?s\<lparr>breakFormat' := 0x16\<rparr>) AND NOT (0x20 OR 0x10) = SERIAL_8E1 teensy32"
      by (simp add: teensy32_def)
    have m: "\<not> breakUseTimer' (?s\<lparr>breakFormat' := 0x16\<rparr>) \<and> breakBaud' (?s\<lparr>breakFormat' := 0x16\<rparr>) \<noteq> 0"
      using s by simp
    have "\<exists>b r. breakTime teensy32 (?s\<lparr>breakFormat' := 0x16\<rparr>) = Inr b
       \<and> unat b = 10 * 1000000 div unat (breakBaud' (?s\<lparr>breakFormat' := 0x16\<rparr>))
       \<and> mabTime teensy32 (?s\<lparr>breakFormat' := 0x16\<rparr>) = Inr r
       \<and> unat r = 1 * 1000000 div unat (breakBaud' (?s\<lparr>breakFormat' := 0x16\<rparr>))"
      using times [THEN conjunct1, rule_format, OF m, unfolded Let_def] f by blast
    then obtain b r where "breakTime teensy32 (?s\<lparr>breakFormat' := 0x16\<rparr>) = Inr b" "unat b = 200"
      "mabTime teensy32 (?s\<lparr>breakFormat' := 0x16\<rparr>) = Inr r" "unat r = 20"
      using s(2) by auto
    then show ?thesis using word [of b 200 200] word [of r 20 20] by simp
  qed
  have b: "breakTime teensy32 (?s\<lparr>breakFormat' := 0x03\<rparr>) = Inr 160
      \<and> mabTime teensy32 (?s\<lparr>breakFormat' := 0x03\<rparr>) = Inr 40"
  proof -
    have f: "breakFormat' (?s\<lparr>breakFormat' := 0x03\<rparr>) AND NOT (0x20 OR 0x10) = SERIAL_7O1 teensy32"
      by (simp add: teensy32_def)
    have m: "\<not> breakUseTimer' (?s\<lparr>breakFormat' := 0x03\<rparr>) \<and> breakBaud' (?s\<lparr>breakFormat' := 0x03\<rparr>) \<noteq> 0"
      using s by simp
    have "\<exists>b r. breakTime teensy32 (?s\<lparr>breakFormat' := 0x03\<rparr>) = Inr b
       \<and> unat b = 8 * 1000000 div unat (breakBaud' (?s\<lparr>breakFormat' := 0x03\<rparr>))
       \<and> mabTime teensy32 (?s\<lparr>breakFormat' := 0x03\<rparr>) = Inr r
       \<and> unat r = 2 * 1000000 div unat (breakBaud' (?s\<lparr>breakFormat' := 0x03\<rparr>))"
      using times [THEN conjunct1, rule_format, OF m, unfolded Let_def] f by blast
    then obtain b r where "breakTime teensy32 (?s\<lparr>breakFormat' := 0x03\<rparr>) = Inr b" "unat b = 160"
      "mabTime teensy32 (?s\<lparr>breakFormat' := 0x03\<rparr>) = Inr r" "unat r = 40"
      using s(2) by auto
    then show ?thesis using word [of b 160 160] word [of r 40 40] by simp
  qed
  have c: "breakTime teensy32 (?s\<lparr>breakFormat' := 0x04, breakBaud' := 125000\<rparr>) = Inr 72
      \<and> mabTime teensy32 (?s\<lparr>breakFormat' := 0x04, breakBaud' := 125000\<rparr>) = Inr 16"
  proof -
    have f: "breakFormat' (?s\<lparr>breakFormat' := 0x04, breakBaud' := 125000\<rparr>) AND NOT (0x20 OR 0x10) = SERIAL_8N2 teensy32"
      by (simp add: teensy32_def)
    have m: "\<not> breakUseTimer' (?s\<lparr>breakFormat' := 0x04, breakBaud' := 125000\<rparr>) \<and> breakBaud' (?s\<lparr>breakFormat' := 0x04, breakBaud' := 125000\<rparr>) \<noteq> 0"
      using s by simp
    have "\<exists>b r. breakTime teensy32 (?s\<lparr>breakFormat' := 0x04, breakBaud' := 125000\<rparr>) = Inr b
       \<and> unat b = 9 * 1000000 div unat (breakBaud' (?s\<lparr>breakFormat' := 0x04, breakBaud' := 125000\<rparr>))
       \<and> mabTime teensy32 (?s\<lparr>breakFormat' := 0x04, breakBaud' := 125000\<rparr>) = Inr r
       \<and> unat r = 2 * 1000000 div unat (breakBaud' (?s\<lparr>breakFormat' := 0x04, breakBaud' := 125000\<rparr>))"
      using times [THEN conjunct1, rule_format, OF m, unfolded Let_def] f by blast
    then obtain b r where "breakTime teensy32 (?s\<lparr>breakFormat' := 0x04, breakBaud' := 125000\<rparr>) = Inr b" "unat b = 72"
      "mabTime teensy32 (?s\<lparr>breakFormat' := 0x04, breakBaud' := 125000\<rparr>) = Inr r" "unat r = 16"
      using s(2) by auto
    then show ?thesis using word [of b 72 72] word [of r 16 16] by simp
  qed
  have e: "breakTime teensy32 (?s\<lparr>breakFormat' := 1\<rparr>) = Inr 180
      \<and> mabTime teensy32 (?s\<lparr>breakFormat' := 1\<rparr>) = Inr 20"
  proof -
    have "\<not> breakUseTimer' (?s\<lparr>breakFormat' := 1\<rparr>)
        \<and> breakFormat' (?s\<lparr>breakFormat' := 1\<rparr>) AND NOT (0x20 OR 0x10) \<notin> set (case_labels teensy32)"
      using s(1) d(2) by simp
    then show ?thesis
      using times [THEN conjunct2, THEN conjunct1, rule_format, of "?s\<lparr>breakFormat' := 1\<rparr>"]
      by blast
  qed
  show ?thesis using d a b c e by blast
qed


subsection \<open>Serial parameters of the BREAK\<close>

text \<open>
  What \<^verbatim>\<open>setBreakSerialParams\<close> decides on: a zero baud rate, the TX inversion bit of the
  argument, and the support of the format that is stored before the call.
\<close>

lemma setBreakSerialParams_result:
  "setBreakSerialParams cfg baud format s =
     (if baud = 0 \<or> format AND kSerialFormatTXINVBit \<noteq> 0
         \<or> \<not> format_supported cfg (format_bits (breakFormat' s))
      then Inr (False, s)
      else if sendHandler' s
        then Inr (True, s\<lparr>breakBaud' := baud, breakFormat' := format,
                          calls := calls s @ [HandlerBreakSerialParamsChanged]\<rparr>)
        else Inl NullPointer)"
  by (simp add: setBreakSerialParams_def handler_call_def breakSerialFormat_def)

text \<open>
  The BREAK baud rate is never zero: the constructor sets 50000 and the function refuses
  0, so the divisions of \<open>breakTime\<close> and \<open>mabTime\<close> are defined.
\<close>

lemma breakBaud_nonzero:
  "breakBaud' (Sender cfg idx) \<noteq> 0"
  "breakBaud' s \<noteq> 0 \<Longrightarrow> setBreakSerialParams cfg baud format s = Inr (ok, s') \<Longrightarrow>
   breakBaud' s' \<noteq> 0"
  by (auto simp: Sender_def setBreakTime_def setMABTime_def Let_def kDefaultBreakBaud_def
      setBreakSerialParams_result split: if_splits)

text \<open>
  Claim C2 fails on the code. On a fresh instance of a Teensy 3.2 (stored format 8N1) the
  format word 1 is no case of the switch, yet \<^verbatim>\<open>setBreakSerialParams(50000, 1)\<close> returns
  true, stores it and notifies the handler, because the switch tests the stored format
  and not the argument. From then on the supported 8N1 is refused.
\<close>

theorem setBreakSerialParams_unsupported_argument:
  "\<not> format_supported teensy32 (format_bits 1)
   \<and> setBreakSerialParams teensy32 50000 1 (Sender teensy32 0) =
       Inr (True, (Sender teensy32 0)\<lparr>breakBaud' := 50000, breakFormat' := 1,
                    calls := [HandlerBreakSerialParamsChanged]\<rparr>)
   \<and> format_supported teensy32 (format_bits (SERIAL_8N1 teensy32))
   \<and> setBreakSerialParams teensy32 50000 (SERIAL_8N1 teensy32)
         ((Sender teensy32 0)\<lparr>breakBaud' := 50000, breakFormat' := 1,
                    calls := [HandlerBreakSerialParamsChanged]\<rparr>) =
       Inr (False, (Sender teensy32 0)\<lparr>breakBaud' := 50000, breakFormat' := 1,
                    calls := [HandlerBreakSerialParamsChanged]\<rparr>)"
proof -
  let ?s = "Sender teensy32 0"
  have f: "format_bits 1 = 1" "format_bits (SERIAL_8N1 teensy32) = 0" "format_bits 0 = 0"
    by (simp_all add: format_bits_def kSerialFormatTXINVBit_def kSerialFormatRXINVBit_def
        teensy32_def)
  have g: "\<not> format_supported teensy32 1" "format_supported teensy32 0"
    by (simp_all add: format_supported_def teensy32_def)
  have s: "breakFormat' ?s = 0" "sendHandler' ?s" "calls ?s = []"
    by (simp_all add: Sender_def setBreakTime_def setMABTime_def Let_def teensy32_def
        kDefaultBreakFormat_def)
  have t: "(1 :: uint32_t) AND kSerialFormatTXINVBit = 0"
    "SERIAL_8N1 teensy32 AND kSerialFormatTXINVBit = 0"
    by (simp_all add: kSerialFormatTXINVBit_def teensy32_def)
  show ?thesis
    using f g s t by (simp add: setBreakSerialParams_result)
qed

subsection \<open>Packet completion\<close>

text \<open>
  Claim C7. \<^verbatim>\<open>completePacket()\<close> increments the packet counter, resets the buffer index
  to 0, clears the transmitting flag and makes the state idle. If the instance is not
  paused, or no completion function is set, that is all it does, and no call is made. If
  it is paused and a function is set, the function is called once, on the instance in
  that state.
\<close>

theorem completePacket_effects:
  "(\<not> paused' s \<or> doneTXFunc' s = None \<longrightarrow>
      completePacket run s =
        s\<lparr>packetCount' := packetCount' s + 1, outputBufIndex' := 0,
          transmitting' := False, state' := kIdle\<rparr>)
   \<and> (paused' s \<and> doneTXFunc' s = Some f \<longrightarrow>
      completePacket run s =
        run f (s\<lparr>packetCount' := packetCount' s + 1, outputBufIndex' := 0,
                 transmitting' := False, state' := kIdle,
                 calls := calls s @ [DoneTXFunc f]\<rparr>))"
  by (auto simp: completePacket_def incPacketCount_def Let_def)

text \<open>
  A paused instance with the completion function 7, which is taken to set the resume
  counter to 5, and the instance without the pause.
\<close>

theorem completePacket_effects_witness:
  "completePacket (\<lambda>f s. s\<lparr>resumeCounter' := 5\<rparr>)
       ((Sender teensy32 0)\<lparr>paused' := True, doneTXFunc' := Some 7, transmitting' := True,
            state' := kData, outputBufIndex' := 513\<rparr>) =
     (Sender teensy32 0)\<lparr>paused' := True, doneTXFunc' := Some 7, transmitting' := False,
            state' := kIdle, outputBufIndex' := 0, packetCount' := 1,
            calls := [DoneTXFunc 7], resumeCounter' := 5\<rparr>
   \<and> completePacket (\<lambda>f s. s\<lparr>resumeCounter' := 5\<rparr>)
       ((Sender teensy32 0)\<lparr>doneTXFunc' := Some 7, transmitting' := True,
            state' := kData, outputBufIndex' := 513\<rparr>) =
     (Sender teensy32 0)\<lparr>doneTXFunc' := Some 7, transmitting' := False,
            state' := kIdle, outputBufIndex' := 0, packetCount' := 1\<rparr>"
proof -
  have s: "paused' (Sender teensy32 0) = False" "packetCount' (Sender teensy32 0) = 0"
    "calls (Sender teensy32 0) = []"
    by (simp_all add: Sender_def setBreakTime_def setMABTime_def Let_def)
  show ?thesis
    using completePacket_effects [of "(Sender teensy32 0)\<lparr>paused' := True, doneTXFunc' := Some 7,
            transmitting' := True, state' := kData, outputBufIndex' := 513\<rparr>"
          "\<lambda>f s. s\<lparr>resumeCounter' := 5\<rparr>" 7]
      completePacket_effects [of "(Sender teensy32 0)\<lparr>doneTXFunc' := Some 7,
            transmitting' := True, state' := kData, outputBufIndex' := 513\<rparr>"
          "\<lambda>f s. s\<lparr>resumeCounter' := 5\<rparr>" 7] s
    by simp
qed


subsection \<open>The registry\<close>

lemma then_do_simps [simp]:
  "then_do (Inr x) f = f x"
  "then_do (Inl e) f = Inl e"
  by (simp_all add: then_do_def)

lemma upd_simps [simp]:
  "senders (upd this f w) p = (if p = this then f (senders w this) else senders w p)"
  "txInstances (upd this f w) = txInstances w"
  by (simp_all add: upd_def)

lemma upd_upd [simp]: "upd this f (upd this g w) = upd this (\<lambda>s. f (g s)) w"
  by (simp add: upd_def)

lemma upd_txInstances [simp]:
  "upd this f (w\<lparr>txInstances := t\<rparr>) = (upd this f w)\<lparr>txInstances := t\<rparr>"
  by (simp add: upd_def)

lemma on_instance_call:
  "sendHandler' (senders w this) \<Longrightarrow>
   on_instance this (handler_call c) w = Inr (upd this (\<lambda>s. s\<lparr>calls := calls s @ [c]\<rparr>) w)"
  by (simp add: on_instance_def handler_call_def upd_def)

lemma Sender_end_result:
  assumes "instances_wf w"
  shows "Sender_end this w =
     Inr (if \<not> began' (senders w this) then w
          else if serialIndex' (senders w this) < 0 then upd this (\<lambda>s. s\<lparr>began' := False\<rparr>) w
          else (upd this (\<lambda>s. s\<lparr>began' := False, calls := calls s @ [HandlerEnd, TimerEnd]\<rparr>) w)
                 \<lparr>txInstances :=
                    (if txInstances w ! nat (serialIndex' (senders w this)) = Some this
                     then (txInstances w)[nat (serialIndex' (senders w this)) := None]
                     else txInstances w)\<rparr>)"
proof (cases "began' (senders w this) \<and> 0 \<le> serialIndex' (senders w this)")
  case False
  then show ?thesis by (auto simp: Sender_end_def Let_def)
next
  case True
  then have h: "sendHandler' (senders w this)"
    "serialIndex' (senders w this) < int (length (txInstances w))"
    using assms by (auto simp: instances_wf_def)
  show ?thesis
    using True h
    by (simp add: Sender_end_def Let_def on_instance_call slot_get_def slot_set_def)
qed
lemma world_eqI:
  "senders w1 = senders w2 \<Longrightarrow> txInstances w1 = txInstances w2 \<Longrightarrow> w1 = (w2 :: world)"
  by simp

lemma instances_wf_upd:
  assumes "instances_wf w"
    and "serialIndex' (f (senders w this)) = serialIndex' (senders w this)"
    and "sendHandler' (f (senders w this)) = sendHandler' (senders w this)"
  shows "instances_wf (upd this f w)"
  using assms by (simp add: instances_wf_def)

lemma instances_wf_slots:
  "instances_wf w \<Longrightarrow> length t = length (txInstances w) \<Longrightarrow> instances_wf (w\<lparr>txInstances := t\<rparr>)"
  by (simp add: instances_wf_def)

lemma Sender_begin_result:
  assumes wf: "instances_wf w" and ok: "registry_ok w"
    and nb: "\<not> began' (senders w this)" and ix: "0 \<le> serialIndex' (senders w this)"
  shows "Sender_begin this w =
     Inr (let i = nat (serialIndex' (senders w this));
              w1 = (upd this (\<lambda>s. s\<lparr>began' := True, packetCount' := 0, transmitting' := False,
                       state' := kIdle,
                       calls := calls s @ [HandlerStart, HandlerPriority, TimerSetPriority,
                                           HandlerSetActive]\<rparr>) w)
                     \<lparr>txInstances := (txInstances w)[i := Some this]\<rparr>
          in case txInstances w ! i of
               None \<Rightarrow> w1
             | Some p \<Rightarrow>
                 upd p (\<lambda>s. s\<lparr>began' := False, calls := calls s @ [HandlerEnd, TimerEnd]\<rparr>) w1)"
proof -
  define i where "i = nat (serialIndex' (senders w this))"
  have h: "sendHandler' (senders w this)" "i < length (txInstances w)"
    "serialIndex' (senders w this) < int (length (txInstances w))"
    using wf ix by (auto simp: instances_wf_def i_def)
  define w3 where "w3 = (upd this (\<lambda>s. s\<lparr>began' := True, packetCount' := 0\<rparr>) w)
                          \<lparr>txInstances := (txInstances w)[i := Some this]\<rparr>"
  have wf3: "instances_wf w3"
    unfolding w3_def using wf by (intro instances_wf_slots instances_wf_upd) simp_all
  show ?thesis
  proof (cases "txInstances w ! i")
    case None
    then show ?thesis
      using nb ix h
      by (simp add: Sender_begin_def Let_def slot_get_def slot_set_def on_instance_call
          resetPacketCount_def i_def [symmetric])
  next
    case (Some p)
    then have "slot_get (serialIndex' (senders w this)) w = Inr (Some p)"
      using ix h by (simp add: slot_get_def i_def)
    then have p: "began' (senders w p)" "serialIndex' (senders w p) = serialIndex' (senders w this)"
      using ok by (auto simp: registry_ok_def)
    then have ne: "p \<noteq> this" using nb by auto
    have e: "Sender_end p w3 =
        Inr (upd p (\<lambda>s. s\<lparr>began' := False, calls := calls s @ [HandlerEnd, TimerEnd]\<rparr>) w3)"
      using p ne ix h
      by (subst Sender_end_result [OF wf3]) (simp add: w3_def i_def [symmetric])
    have "Sender_begin this w =
          Inr (upd this (\<lambda>s. s\<lparr>transmitting' := False, state' := kIdle,
                 calls := calls s @ [HandlerStart, HandlerPriority, TimerSetPriority,
                                     HandlerSetActive]\<rparr>)
                (upd p (\<lambda>s. s\<lparr>began' := False, calls := calls s @ [HandlerEnd, TimerEnd]\<rparr>) w3))"
      using nb ix h Some ne
      by (simp add: Sender_begin_def Let_def slot_get_def slot_set_def
          resetPacketCount_def i_def [symmetric] e [unfolded w3_def] on_instance_call w3_def)
    then show ?thesis
      using Some ne
      by (simp add: Let_def i_def [symmetric] w3_def upd_def fun_upd_twist)
  qed
qed

lemma slot_get_upd [simp]: "slot_get i (upd this f w) = slot_get i w"
  by (simp add: slot_get_def)

lemma registry_one_per_port:
  assumes "registry_ok w"
    and "began' (senders w p)" "began' (senders w q)" "0 \<le> serialIndex' (senders w p)"
    and "serialIndex' (senders w p) = serialIndex' (senders w q)"
  shows "p = q"
proof -
  have a: "\<forall>r. began' (senders w r) \<and> 0 \<le> serialIndex' (senders w r) \<longrightarrow>
             slot_get (serialIndex' (senders w r)) w = Inr (Some r)"
    using assms(1) by (simp add: registry_ok_def)
  have "slot_get (serialIndex' (senders w p)) w = Inr (Some p)"
    using a assms(2,4) by blast
  moreover have "slot_get (serialIndex' (senders w p)) w = Inr (Some q)"
    using a assms(3,4,5) by metis
  ultimately show ?thesis by simp
qed

lemma Sender_begin_props:
  assumes wf: "instances_wf w" and ok: "registry_ok w"
  shows "\<exists>w'. Sender_begin this w = Inr w' \<and> instances_wf w' \<and> registry_ok w'
        \<and> began' (senders w' this)
        \<and> (\<forall>p. serialIndex' (senders w' p) = serialIndex' (senders w p))
        \<and> (\<forall>p. p \<noteq> this \<and> slot_get (serialIndex' (senders w this)) w \<noteq> Inr (Some p) \<longrightarrow>
              senders w' p = senders w p)
        \<and> (0 \<le> serialIndex' (senders w this) \<longrightarrow>
             slot_get (serialIndex' (senders w this)) w' = Inr (Some this))
        \<and> (\<forall>p. \<not> began' (senders w this) \<and> 0 \<le> serialIndex' (senders w this)
                \<and> slot_get (serialIndex' (senders w this)) w = Inr (Some p) \<longrightarrow>
              p \<noteq> this \<and> \<not> began' (senders w' p)
              \<and> calls (senders w' p) = calls (senders w p) @ [HandlerEnd, TimerEnd])"
proof (cases "began' (senders w this)")
  case True
  then have "Sender_begin this w = Inr w" by (simp add: Sender_begin_def)
  moreover have "0 \<le> serialIndex' (senders w this) \<longrightarrow>
             slot_get (serialIndex' (senders w this)) w = Inr (Some this)"
    using ok True by (simp add: registry_ok_def)
  ultimately show ?thesis using wf ok True by simp
next
  case nb: False
  show ?thesis
  proof (cases "serialIndex' (senders w this) < 0")
    case True
    then have r: "Sender_begin this w = Inr (upd this (\<lambda>s. s\<lparr>began' := True\<rparr>) w)"
      using nb by (simp add: Sender_begin_def Let_def)
    have "instances_wf (upd this (\<lambda>s. s\<lparr>began' := True\<rparr>) w)"
      using wf by (intro instances_wf_upd) simp_all
    moreover have "registry_ok (upd this (\<lambda>s. s\<lparr>began' := True\<rparr>) w)"
      using ok True by (auto simp: registry_ok_def)
    ultimately show ?thesis using r True by simp
  next
    case False
    then have ix: "0 \<le> serialIndex' (senders w this)" by simp
    define i where "i = nat (serialIndex' (senders w this))"
    have h: "sendHandler' (senders w this)" "i < length (txInstances w)"
      "serialIndex' (senders w this) = int i"
      using wf ix by (auto simp: instances_wf_def i_def)
    define f :: "sender \<Rightarrow> sender" where "f = (\<lambda>s. s\<lparr>began' := True, packetCount' := 0, transmitting' := False,
                       state' := kIdle,
                       calls := calls s @ [HandlerStart, HandlerPriority, TimerSetPriority,
                                           HandlerSetActive]\<rparr>)"
    define g :: "sender \<Rightarrow> sender" where "g = (\<lambda>s. s\<lparr>began' := False, calls := calls s @ [HandlerEnd, TimerEnd]\<rparr>)"
    define w1 where "w1 = (upd this f w)\<lparr>txInstances := (txInstances w)[i := Some this]\<rparr>"
    define w' where "w' = (case txInstances w ! i of None \<Rightarrow> w1 | Some p \<Rightarrow> upd p g w1)"
    have r: "Sender_begin this w = Inr w'"
      using Sender_begin_result [OF wf ok nb ix]
      unfolding Let_def w'_def w1_def f_def g_def i_def .
    have ok_slot: "\<And>j p. slot_get j w = Inr (Some p) \<Longrightarrow>
                 began' (senders w p) \<and> serialIndex' (senders w p) = j"
      using ok unfolding registry_ok_def by blast
    have prev: "p \<noteq> this \<and> began' (senders w p) \<and> serialIndex' (senders w p) = int i"
      if "txInstances w ! i = Some p" for p
    proof -
      have "slot_get (int i) w = Inr (Some p)"
        using that h by (simp add: slot_get_def)
      from ok_slot [OF this] show ?thesis using nb by auto
    qed
    have sw: "\<And>q. senders w' q =
        (if q = this then f (senders w this)
         else if txInstances w ! i = Some q then g (senders w q) else senders w q)"
      using prev by (auto simp: w'_def w1_def split: option.splits)
    have tw: "txInstances w' = (txInstances w)[i := Some this]"
      by (simp add: w'_def w1_def split: option.splits)
    have si: "\<And>q. serialIndex' (senders w' q) = serialIndex' (senders w q)"
      "\<And>q. sendHandler' (senders w' q) = sendHandler' (senders w q)"
      by (simp_all add: sw f_def g_def)
    have wf': "instances_wf w'"
      using wf by (simp add: instances_wf_def si tw)
    have bg: "\<And>q. began' (senders w' q) =
                 (q = this \<or> (began' (senders w q) \<and> txInstances w ! i \<noteq> Some q))"
      using nb by (auto simp: sw f_def g_def)
    have sg: "\<And>j. slot_get j w' =
        (if j = int i then Inr (Some this) else slot_get j w)"
      using h by (auto simp: slot_get_def tw nth_list_update)
    have ok1: "\<forall>p. began' (senders w' p) \<and> 0 \<le> serialIndex' (senders w' p) \<longrightarrow>
           slot_get (serialIndex' (senders w' p)) w' = Inr (Some p)"
    proof (intro allI impI)
      fix p assume a: "began' (senders w' p) \<and> 0 \<le> serialIndex' (senders w' p)"
      show "slot_get (serialIndex' (senders w' p)) w' = Inr (Some p)"
      proof (cases "p = this")
        case True
        then show ?thesis using h by (simp add: sg si)
      next
        case False
        then have b: "began' (senders w p)" "txInstances w ! i \<noteq> Some p"
          using a by (auto simp: bg)
        then have s: "slot_get (serialIndex' (senders w p)) w = Inr (Some p)"
          using ok a by (simp add: registry_ok_def si)
        then have "serialIndex' (senders w p) \<noteq> int i"
          using b(2) h by (auto simp: slot_get_def)
        then show ?thesis using s by (simp add: sg si)
      qed
    qed
    have ok2: "\<forall>j p. slot_get j w' = Inr (Some p) \<longrightarrow>
           began' (senders w' p) \<and> serialIndex' (senders w' p) = j"
    proof (intro allI impI)
      fix j p assume a: "slot_get j w' = Inr (Some p)"
      show "began' (senders w' p) \<and> serialIndex' (senders w' p) = j"
      proof (cases "j = int i")
        case True
        then show ?thesis using a h by (simp add: sg bg si)
      next
        case False
        then have s: "slot_get j w = Inr (Some p)" using a by (simp add: sg)
        then have b: "began' (senders w p)" "serialIndex' (senders w p) = j"
          using ok_slot by blast+
        have "txInstances w ! i \<noteq> Some p"
          using prev b(2) False by auto
        then show ?thesis using b by (simp add: bg si)
      qed
    qed
    have ok': "registry_ok w'"
      using ok1 ok2 by (simp add: registry_ok_def)
    have ev: "\<forall>p. \<not> began' (senders w this) \<and> 0 \<le> serialIndex' (senders w this)
                \<and> slot_get (serialIndex' (senders w this)) w = Inr (Some p) \<longrightarrow>
              p \<noteq> this \<and> \<not> began' (senders w' p)
              \<and> calls (senders w' p) = calls (senders w p) @ [HandlerEnd, TimerEnd]"
    proof (intro allI impI)
      fix p assume "\<not> began' (senders w this) \<and> 0 \<le> serialIndex' (senders w this)
                \<and> slot_get (serialIndex' (senders w this)) w = Inr (Some p)"
      then have t: "txInstances w ! i = Some p"
        using h by (simp add: slot_get_def)
      then show "p \<noteq> this \<and> \<not> began' (senders w' p)
              \<and> calls (senders w' p) = calls (senders w p) @ [HandlerEnd, TimerEnd]"
        using prev [OF t] by (simp add: bg sw g_def)
    qed
    have fr: "\<forall>p. p \<noteq> this \<and> slot_get (serialIndex' (senders w this)) w \<noteq> Inr (Some p) \<longrightarrow>
              senders w' p = senders w p"
      using h by (simp add: sw slot_get_def)
    show ?thesis
      using r wf' ok' ev fr h by (simp add: bg si sg)
  qed
qed

lemma Sender_end_props:
  assumes wf: "instances_wf w" and ok: "registry_ok w"
  shows "\<exists>w'. Sender_end this w = Inr w' \<and> instances_wf w' \<and> registry_ok w'
        \<and> \<not> began' (senders w' this)
        \<and> (\<forall>p. serialIndex' (senders w' p) = serialIndex' (senders w p))
        \<and> (\<forall>p. p \<noteq> this \<longrightarrow> senders w' p = senders w p)
        \<and> (began' (senders w this) \<and> 0 \<le> serialIndex' (senders w this) \<longrightarrow>
             calls (senders w' this) = calls (senders w this) @ [HandlerEnd, TimerEnd]
             \<and> slot_get (serialIndex' (senders w this)) w' = Inr None)
        \<and> (\<forall>i. slot_get i w \<noteq> Inr (Some this) \<longrightarrow> slot_get i w' = slot_get i w)
        \<and> Sender_end this w' = Inr w'"
proof (cases "began' (senders w this)")
  case False
  then have "Sender_end this w = Inr w" by (simp add: Sender_end_def)
  then show ?thesis using wf ok False by simp
next
  case bg: True
  have ok_slot: "\<And>j p. slot_get j w = Inr (Some p) \<Longrightarrow>
               began' (senders w p) \<and> serialIndex' (senders w p) = j"
    using ok unfolding registry_ok_def by blast
  have ok_began: "\<And>p. began' (senders w p) \<Longrightarrow> 0 \<le> serialIndex' (senders w p) \<Longrightarrow>
               slot_get (serialIndex' (senders w p)) w = Inr (Some p)"
    using ok unfolding registry_ok_def by blast
  show ?thesis
  proof (cases "serialIndex' (senders w this) < 0")
    case True
    define w' where "w' = upd this (\<lambda>s. s\<lparr>began' := False\<rparr>) w"
    have r: "Sender_end this w = Inr w'"
      using bg True by (simp add: Sender_end_def Let_def w'_def)
    have wf': "instances_wf w'"
      unfolding w'_def using wf by (intro instances_wf_upd) simp_all
    have "registry_ok w'"
      unfolding registry_ok_def
    proof (intro conjI allI impI)
      fix p assume "began' (senders w' p) \<and> 0 \<le> serialIndex' (senders w' p)"
      then have "began' (senders w p)" "0 \<le> serialIndex' (senders w p)" "p \<noteq> this"
        using True by (auto simp: w'_def split: if_splits)
      then show "slot_get (serialIndex' (senders w' p)) w' = Inr (Some p)"
        using ok_began by (simp add: w'_def)
    next
      fix j p assume "slot_get j w' = Inr (Some p)"
      then have s: "slot_get j w = Inr (Some p)" by (simp add: w'_def)
      from ok_slot [OF s] have b: "began' (senders w p)" "serialIndex' (senders w p) = j"
        by auto
      have "0 \<le> j" using s by (simp add: slot_get_def split: if_splits)
      then have "p \<noteq> this" using b True by auto
      then show "began' (senders w' p)" "serialIndex' (senders w' p) = j"
        using b by (simp_all add: w'_def)
    qed
    moreover have "Sender_end this w' = Inr w'"
      by (simp add: Sender_end_def w'_def)
    ultimately show ?thesis using r wf' True by (simp add: w'_def)
  next
    case False
    then have ix: "0 \<le> serialIndex' (senders w this)" by simp
    define i where "i = nat (serialIndex' (senders w this))"
    have h: "i < length (txInstances w)" "serialIndex' (senders w this) = int i"
      using wf ix by (auto simp: instances_wf_def i_def)
    have own: "txInstances w ! i = Some this"
      using ok_began [OF bg ix] h by (simp add: slot_get_def)
    define g :: "sender \<Rightarrow> sender"
      where "g = (\<lambda>s. s\<lparr>began' := False, calls := calls s @ [HandlerEnd, TimerEnd]\<rparr>)"
    define w' where "w' = (upd this g w)\<lparr>txInstances := (txInstances w)[i := None]\<rparr>"
    have r: "Sender_end this w = Inr w'"
      using Sender_end_result [OF wf, of this] bg ix own
      by (simp add: w'_def g_def i_def [symmetric])
    have wf': "instances_wf w'"
      unfolding w'_def using wf
      by (intro instances_wf_slots instances_wf_upd) (simp_all add: g_def)
    have sg: "\<And>j. slot_get j w' = (if j = int i then Inr None else slot_get j w)"
      using h by (auto simp: slot_get_def w'_def nth_list_update)
    have "registry_ok w'"
      unfolding registry_ok_def
    proof (intro conjI allI impI)
      fix p assume "began' (senders w' p) \<and> 0 \<le> serialIndex' (senders w' p)"
      then have b: "began' (senders w p)" "0 \<le> serialIndex' (senders w p)" "p \<noteq> this"
        by (auto simp: w'_def g_def split: if_splits)
      have "serialIndex' (senders w p) \<noteq> int i"
        using registry_one_per_port [OF ok b(1) bg b(2)] b(3) h by auto
      then show "slot_get (serialIndex' (senders w' p)) w' = Inr (Some p)"
        using ok_began [OF b(1,2)] b(3) by (simp add: sg) (simp add: w'_def)
    next
      fix j p assume a: "slot_get j w' = Inr (Some p)"
      then have s: "slot_get j w = Inr (Some p)" "j \<noteq> int i"
        by (auto simp: sg split: if_splits)
      from ok_slot [OF s(1)] have b: "began' (senders w p)" "serialIndex' (senders w p) = j"
        by auto
      then have "p \<noteq> this" using s(2) h by auto
      then show "began' (senders w' p)" "serialIndex' (senders w' p) = j"
        using b by (simp_all add: w'_def)
    qed
    moreover have "Sender_end this w' = Inr w'"
      by (simp add: Sender_end_def w'_def g_def)
    moreover have "\<forall>j. slot_get j w \<noteq> Inr (Some this) \<longrightarrow> slot_get j w' = slot_get j w"
    proof -
      have "slot_get (int i) w = Inr (Some this)"
        using own h by (simp add: slot_get_def)
      then show ?thesis by (auto simp: sg)
    qed
    ultimately show ?thesis
      using r wf' h by (simp add: sg) (simp add: w'_def g_def)
  qed
qed

text \<open>
  Claim C8. In a system whose instances have their handlers and slots and whose registry
  satisfies the invariant, no two started instances share a port. \<^verbatim>\<open>begin()\<close> and
  \<^verbatim>\<open>end()\<close> return and keep the invariant. After \<^verbatim>\<open>begin()\<close> the instance is started and
  the slot of its port points to it; a different instance that the slot pointed to has
  been ended (it is no longer started, its handler and its timer were ended) and the slot
  is not cleared; no other instance is touched. After \<^verbatim>\<open>end()\<close> the instance is not started;
  if it was started on a port, its handler (the interrupts) and its timer were ended and
  its slot is null; a slot that did not point to it is unchanged; a second \<^verbatim>\<open>end()\<close>
  changes nothing, as does any \<^verbatim>\<open>end()\<close> of an instance that is not started.
\<close>

theorem registry_single_owner:
  assumes "instances_wf w" "registry_ok w"
  shows
    "(\<forall>p q. began' (senders w p) \<and> began' (senders w q) \<and> 0 \<le> serialIndex' (senders w p)
            \<and> serialIndex' (senders w p) = serialIndex' (senders w q) \<longrightarrow> p = q)
     \<and> (\<exists>w'. Sender_begin this w = Inr w' \<and> instances_wf w' \<and> registry_ok w'
        \<and> began' (senders w' this)
        \<and> (\<forall>p. serialIndex' (senders w' p) = serialIndex' (senders w p))
        \<and> (\<forall>p. p \<noteq> this \<and> slot_get (serialIndex' (senders w this)) w \<noteq> Inr (Some p) \<longrightarrow>
              senders w' p = senders w p)
        \<and> (0 \<le> serialIndex' (senders w this) \<longrightarrow>
             slot_get (serialIndex' (senders w this)) w' = Inr (Some this))
        \<and> (\<forall>p. \<not> began' (senders w this) \<and> 0 \<le> serialIndex' (senders w this)
                \<and> slot_get (serialIndex' (senders w this)) w = Inr (Some p) \<longrightarrow>
              p \<noteq> this \<and> \<not> began' (senders w' p)
              \<and> calls (senders w' p) = calls (senders w p) @ [HandlerEnd, TimerEnd]))
     \<and> (\<exists>w'. Sender_end this w = Inr w' \<and> instances_wf w' \<and> registry_ok w'
        \<and> \<not> began' (senders w' this)
        \<and> (\<forall>p. serialIndex' (senders w' p) = serialIndex' (senders w p))
        \<and> (\<forall>p. p \<noteq> this \<longrightarrow> senders w' p = senders w p)
        \<and> (began' (senders w this) \<and> 0 \<le> serialIndex' (senders w this) \<longrightarrow>
             calls (senders w' this) = calls (senders w this) @ [HandlerEnd, TimerEnd]
             \<and> slot_get (serialIndex' (senders w this)) w' = Inr None)
        \<and> (\<forall>i. slot_get i w \<noteq> Inr (Some this) \<longrightarrow> slot_get i w' = slot_get i w)
        \<and> Sender_end this w' = Inr w')
     \<and> (\<not> began' (senders w this) \<longrightarrow> Sender_end this w = Inr w)"
proof -
  have "\<forall>p q. began' (senders w p) \<and> began' (senders w q) \<and> 0 \<le> serialIndex' (senders w p)
            \<and> serialIndex' (senders w p) = serialIndex' (senders w q) \<longrightarrow> p = q"
    using registry_one_per_port [OF assms(2)] by blast
  moreover have "\<not> began' (senders w this) \<longrightarrow> Sender_end this w = Inr w"
    by (simp add: Sender_end_def)
  ultimately show ?thesis
    using Sender_begin_props [OF assms, of this] Sender_end_props [OF assms, of this]
    by blast
qed

lemma world0_wf: "instances_wf world0" "registry_ok world0"
proof -
  have m: "p mod 3 < (3 :: nat)" for p by simp
  have "p mod 3 < (7 :: nat)" for p using m [of p] by linarith
  then show "instances_wf world0"
    using m by (simp add: instances_wf_def world0_def Sender_def setBreakTime_def
        setMABTime_def Let_def teensy32_def)
  have "replicate 7 (None :: nat option) ! nat i = None" if "0 \<le> i \<and> i < 7" for i :: int
    using that by (intro nth_replicate) linarith
  then show "registry_ok world0"
    by (simp add: registry_ok_def world0_def slot_get_def Sender_def setBreakTime_def
        setMABTime_def Let_def teensy32_def)
qed

lemma world0_senders:
  "serialIndex' (senders world0 p) = int (p mod 3)" "\<not> began' (senders world0 p)"
  by (simp_all add: world0_def Sender_def setBreakTime_def setMABTime_def Let_def)

text \<open>
  On the Teensy 3.2 system: instance 0 begins on port 0, instance 3 begins on the same port
  and evicts it, \<^verbatim>\<open>end()\<close> of the evicted instance 0 changes nothing, \<^verbatim>\<open>end()\<close> of
  instance 3 clears the slot, and a second one changes nothing.
\<close>

theorem registry_single_owner_witness:
  "instances_wf world0 \<and> registry_ok world0
   \<and> (\<exists>w1 w2 w3. Sender_begin 0 world0 = Inr w1 \<and> began' (senders w1 0)
         \<and> slot_get 0 w1 = Inr (Some 0)
         \<and> Sender_begin 3 w1 = Inr w2 \<and> began' (senders w2 3) \<and> \<not> began' (senders w2 0)
         \<and> slot_get 0 w2 = Inr (Some 3)
         \<and> Sender_end 0 w2 = Inr w2
         \<and> Sender_end 3 w2 = Inr w3 \<and> \<not> began' (senders w3 3) \<and> slot_get 0 w3 = Inr None
         \<and> Sender_end 3 w3 = Inr w3)"
proof -
  obtain w1 where w1: "Sender_begin 0 world0 = Inr w1" "instances_wf w1" "registry_ok w1"
      "began' (senders w1 0)"
      "\<forall>p. serialIndex' (senders w1 p) = serialIndex' (senders world0 p)"
      "\<forall>p. p \<noteq> 0 \<and> slot_get (serialIndex' (senders world0 0)) world0 \<noteq> Inr (Some p) \<longrightarrow>
              senders w1 p = senders world0 p"
      "0 \<le> serialIndex' (senders world0 0) \<longrightarrow>
             slot_get (serialIndex' (senders world0 0)) w1 = Inr (Some 0)"
    using registry_single_owner [OF world0_wf, of 0] by blast
  have s1: "slot_get 0 w1 = Inr (Some 0)"
    using w1(7) by (simp add: world0_senders)
  have "slot_get 0 world0 \<noteq> Inr (Some 3)"
    by (simp add: world0_def slot_get_def teensy32_def)
  then have i3: "senders w1 3 = senders world0 3"
    using w1(6) by (simp add: world0_senders)
  have p3: "serialIndex' (senders w1 3) = 0" "\<not> began' (senders w1 3)"
    using i3 by (simp_all add: world0_senders)
  obtain w2 where w2: "Sender_begin 3 w1 = Inr w2" "instances_wf w2" "registry_ok w2"
      "began' (senders w2 3)"
      "\<forall>p. serialIndex' (senders w2 p) = serialIndex' (senders w1 p)"
      "0 \<le> serialIndex' (senders w1 3) \<longrightarrow>
             slot_get (serialIndex' (senders w1 3)) w2 = Inr (Some 3)"
      "\<forall>p. \<not> began' (senders w1 3) \<and> 0 \<le> serialIndex' (senders w1 3)
                \<and> slot_get (serialIndex' (senders w1 3)) w1 = Inr (Some p) \<longrightarrow>
              p \<noteq> 3 \<and> \<not> began' (senders w2 p)
              \<and> calls (senders w2 p) = calls (senders w1 p) @ [HandlerEnd, TimerEnd]"
    using registry_single_owner [OF w1(2,3), of 3] by blast
  have s2: "slot_get 0 w2 = Inr (Some 3)" using w2(6) p3 by simp
  have e0: "\<not> began' (senders w2 0)" using w2(7) p3 s1 by simp
  have n0: "Sender_end 0 w2 = Inr w2"
    using registry_single_owner [OF w2(2,3), of 0] e0 by blast
  have q3: "serialIndex' (senders w2 3) = 0" using w2(5) p3 by simp
  obtain w3 where w3: "Sender_end 3 w2 = Inr w3" "\<not> began' (senders w3 3)"
      "began' (senders w2 3) \<and> 0 \<le> serialIndex' (senders w2 3) \<longrightarrow>
             calls (senders w3 3) = calls (senders w2 3) @ [HandlerEnd, TimerEnd]
             \<and> slot_get (serialIndex' (senders w2 3)) w3 = Inr None"
      "Sender_end 3 w3 = Inr w3"
    using registry_single_owner [OF w2(2,3), of 3] by blast
  have s3: "slot_get 0 w3 = Inr None" using w3(3) w2(4) q3 by simp
  show ?thesis
    using world0_wf w1(1,4) s1 w2(1,4) e0 s2 n0 w3(1,2,4) s3 by blast
qed




subsection \<open>What \<open>isTransmitting\<close> reports\<close>

text \<open>
  Claim C3, as the code has it. \<^verbatim>\<open>isTransmitting()\<close> returns
  \<^verbatim>\<open>!paused_ || transmitting_\<close>: while the instance is paused it returns true if and only
  if the transmitting flag is set, and while it is not paused it returns true, also
  right after a packet has completed and whatever the refresh rate is. (On a started
  instance the critical section needs the handler.)
\<close>

theorem isTransmitting_reports:
  "began' s \<longrightarrow> sendHandler' s \<Longrightarrow>
   isTransmitting s = Inr (\<not> paused' s \<or> transmitting' s, s\<lparr>calls := calls s @ lock_calls s\<rparr>)
   \<and> (paused' s \<longrightarrow> (\<exists>s'. isTransmitting s = Inr (transmitting' s, s')))
   \<and> (\<not> paused' s \<longrightarrow> (\<exists>s'. isTransmitting (completePacket run s) = Inr (True, s')))"
  by (auto simp: isTransmitting_def disableIRQs_def enableIRQs_def handler_call_def
      lock_calls_def completePacket_def incPacketCount_def Let_def)

text \<open>
  A started, paused instance with and without a packet in flight, and a started instance
  that is not paused when its packet completes.
\<close>

theorem isTransmitting_reports_witness:
  "isTransmitting ((Sender teensy32 0)\<lparr>began' := True, paused' := True, transmitting' := True\<rparr>) =
     Inr (True, (Sender teensy32 0)\<lparr>began' := True, paused' := True, transmitting' := True,
                  calls := [HandlerSetIRQsEnabled False, HandlerSetIRQsEnabled True]\<rparr>)
   \<and> isTransmitting ((Sender teensy32 0)\<lparr>began' := True, paused' := True\<rparr>) =
     Inr (False, (Sender teensy32 0)\<lparr>began' := True, paused' := True,
                  calls := [HandlerSetIRQsEnabled False, HandlerSetIRQsEnabled True]\<rparr>)
   \<and> (\<exists>s'. isTransmitting (completePacket (\<lambda>f s. s)
               ((Sender teensy32 0)\<lparr>began' := True, transmitting' := True\<rparr>)) = Inr (True, s'))"
proof -
  let ?s = "Sender teensy32 0"
  have s: "sendHandler' ?s" "\<not> paused' ?s" "\<not> transmitting' ?s" "calls ?s = []"
    by (simp_all add: Sender_def setBreakTime_def setMABTime_def Let_def teensy32_def)
  have h: "began' (?s\<lparr>began' := True, paused' := True, transmitting' := True\<rparr>) \<longrightarrow>
           sendHandler' (?s\<lparr>began' := True, paused' := True, transmitting' := True\<rparr>)"
    "began' (?s\<lparr>began' := True, paused' := True\<rparr>) \<longrightarrow>
           sendHandler' (?s\<lparr>began' := True, paused' := True\<rparr>)"
    "began' (?s\<lparr>began' := True, transmitting' := True\<rparr>) \<longrightarrow>
           sendHandler' (?s\<lparr>began' := True, transmitting' := True\<rparr>)"
    using s by simp_all
  show ?thesis
    using isTransmitting_reports [OF h(1), of "\<lambda>f s. s"] isTransmitting_reports [OF h(2), of "\<lambda>f s. s"]
      isTransmitting_reports [OF h(3), of "\<lambda>f s. s"] s
    by (simp add: lock_calls_def)
qed

lemma begin0:
  "\<exists>w1. Sender_begin 0 world0 = Inr w1 \<and> began' (senders w1 0) \<and> sendHandler' (senders w1 0)
      \<and> \<not> paused' (senders w1 0)"
proof -
  have s: "\<not> began' (senders world0 0)" "0 \<le> serialIndex' (senders world0 0)"
    by (simp_all add: world0_senders)
  have t: "txInstances world0 ! nat (serialIndex' (senders world0 0)) = None"
    by (simp add: world0_senders) (simp add: world0_def teensy32_def)
  have p: "sendHandler' (senders world0 0)" "\<not> paused' (senders world0 0)"
    by (simp_all add: world0_def Sender_def setBreakTime_def setMABTime_def Let_def teensy32_def)
  show ?thesis
    using p by (simp add: Sender_begin_result [OF world0_wf s] Let_def t)
qed

text \<open>
  After \<^verbatim>\<open>setRefreshRate(0)\<close> and the completion of the packet in flight, with the engine
  not paused, \<^verbatim>\<open>isTransmitting()\<close> returns true, not false.
\<close>

theorem isTransmitting_after_rate_zero_counterexample:
  "refresh_zero_run = Inr (True, True)"
proof -
  obtain w1 where w1: "Sender_begin 0 world0 = Inr w1" "began' (senders w1 0)"
      "sendHandler' (senders w1 0)" "\<not> paused' (senders w1 0)"
    using begin0 by blast
  have z: "\<not> is_nan (Finite False 0 0)" "\<not> less_zero (Finite False 0 0)"
    "equals_zero (Finite False 0 0)"
    by (simp_all add: is_nan_def less_zero_def equals_zero_def)
  have r: "setRefreshRate saturated (Finite False 0 0) 0 w1 =
        Inr (True, upd 0 (\<lambda>s. s\<lparr>breakToBreakTime' := 0xFFFFFFFF, refreshRate' := Finite False 0 0\<rparr>) w1)"
    using z by (simp add: setRefreshRate_def)
  show ?thesis
    using w1
    by (simp add: refresh_zero_run_def r isTransmitting_def completePacket_def
        incPacketCount_def Let_def disableIRQs_def enableIRQs_def handler_call_def)
qed


subsection \<open>The refresh rate\<close>

text \<open>
  The division is accurate: the truncated value of the rounded quotient of \<open>a / b\<close>
  differs from \<open>a / b\<close> by at most \<open>1 + (a / b) / 2 ^ 24\<close>.
\<close>


lemma bitlen_bounds: "0 < n \<Longrightarrow> 2 ^ (bitlen n - 1) \<le> n \<and> n < 2 ^ bitlen n"
proof (induction n rule: bitlen.induct)
  case (1 n)
  show ?case
  proof (cases "n div 2 = 0")
    case True
    then have "n = 1" using "1.prems" by presburger
    then show ?thesis by (simp add: bitlen.simps)
  next
    case False
    then have ih: "2 ^ (bitlen (n div 2) - 1) \<le> n div 2" "n div 2 < 2 ^ bitlen (n div 2)"
      using "1.IH" "1.prems" by auto
    have pos: "0 < bitlen (n div 2)" using False by (subst bitlen.simps) simp
    have b: "bitlen n = Suc (bitlen (n div 2))" using "1.prems" by (subst bitlen.simps) simp
    have "(2 :: nat) ^ (bitlen n - 1) = 2 * 2 ^ (bitlen (n div 2) - 1)"
      using pos b by (cases "bitlen (n div 2)") simp_all
    then have "2 ^ (bitlen n - 1) \<le> 2 * (n div 2)" using ih(1) by simp
    moreover have "n < 2 * (n div 2 + 1)" by presburger
    moreover have "2 * (n div 2 + 1) \<le> 2 * 2 ^ bitlen (n div 2)" using ih(2) by simp
    ultimately show ?thesis using b by simp
  qed
qed

lemma round_half_even_error:
  assumes "0 < b"
  shows "2 * a \<le> 2 * (round_half_even a b * b) + b \<and> 2 * (round_half_even a b * b) \<le> 2 * a + b"
proof -
  have d: "a = a div b * b + a mod b" by simp
  have m: "a mod b < b" using assms by simp
  define q r where "q = a div b" and "r = a mod b"
  have e: "a = q * b + r" "r < b" using d m by (simp_all add: q_def r_def)
  have "round_half_even a b = q \<and> 2 * r \<le> b \<or> round_half_even a b = q + 1 \<and> b \<le> 2 * r"
    by (auto simp: round_half_even_def Let_def q_def r_def)
  then show ?thesis
  proof
    assume "round_half_even a b = q \<and> 2 * r \<le> b"
    then show ?thesis using e by simp
  next
    assume "round_half_even a b = q + 1 \<and> b \<le> 2 * r"
    then show ?thesis using e by (simp add: algebra_simps)
  qed
qed

lemma floor_log2_lower:
  assumes "0 < a" "0 < b" "0 \<le> floor_log2 a b"
  shows "b * 2 ^ nat (floor_log2 a b) \<le> a"
proof -
  define d where "d = int (bitlen a) - int (bitlen b)"
  define c where "c = (if 0 \<le> d then b * 2 ^ nat d \<le> a else b \<le> a * 2 ^ nat (- d))"
  have fl: "floor_log2 a b = (if c then d else d - 1)"
    unfolding floor_log2_def Let_def d_def c_def by (rule refl)
  show ?thesis
  proof (cases c)
    case True
    then have k: "floor_log2 a b = d" by (simp add: fl)
    then have "0 \<le> d" using assms(3) by simp
    then have "b * 2 ^ nat d \<le> a" using True by (simp add: c_def)
    then show ?thesis by (simp add: k)
  next
    case False
    then have k: "floor_log2 a b = d - 1" by (simp add: fl)
    then have d1: "1 \<le> d" using assms(3) by simp
    have la: "2 ^ (bitlen a - 1) \<le> a" and lb: "b < 2 ^ bitlen b"
      using bitlen_bounds [OF assms(1)] bitlen_bounds [OF assms(2)] by simp_all
    have e: "bitlen b + nat (d - 1) = bitlen a - 1"
      using d1 by (simp add: d_def)
    have "b * 2 ^ nat (d - 1) \<le> 2 ^ bitlen b * 2 ^ nat (d - 1)"
      using lb by simp
    also have "\<dots> = 2 ^ (bitlen a - 1)"
      by (simp add: power_add [symmetric] e)
    finally show ?thesis using la k by simp
  qed
qed

lemma truncated_normalise:
  "truncated (2 ^ 23) (e + 1) = truncated (2 ^ 24) e"
proof (cases "0 \<le> e")
  case True
  then have "nat (e + 1) = Suc (nat e)" by simp
  then show ?thesis using True by (simp add: truncated_def)
next
  case False
  show ?thesis
  proof (cases "e = - 1")
    case True
    then show ?thesis by (simp add: truncated_def)
  next
    case ne: False
    then have n: "nat (- e) = Suc (nat (- (e + 1)))" using False by simp
    have "(2 :: nat) ^ 24 div 2 ^ nat (- e) = (2 * 2 ^ 23) div (2 * 2 ^ nat (- (e + 1)))"
      by (simp add: n)
    also have "\<dots> = 2 ^ 23 div 2 ^ nat (- (e + 1))"
      by (rule div_mult_mult1) simp
    finally show ?thesis using False ne by (simp add: truncated_def)
  qed
qed

lemma round_float32_accuracy:
  assumes a: "0 < a" and b: "0 < b" and r: "round_float32 a b = Finite s M E"
  shows "2 ^ 24 * \<bar>int (truncated M E) * int b - int a\<bar> \<le> int a + 2 ^ 24 * int b"
proof -
  define E0 where "E0 = max (floor_log2 a b - 23) (- 149)"
  define M0 where "M0 = (if 0 \<le> E0 then round_half_even a (b * 2 ^ nat E0)
                         else round_half_even (a * 2 ^ nat (- E0)) b)"
  have r': "round_float32 a b =
      (case (if M0 = 2 ^ 24 then (2 ^ 23, E0 + 1) else (M0, E0)) of
         (m, e) \<Rightarrow> if 104 < e then Infinity False else Finite False m e)"
    unfolding round_float32_def Let_def E0_def M0_def by (rule refl)
  have t: "truncated M E = truncated M0 E0"
  proof (cases "M0 = 2 ^ 24")
    case True
    then have "M = 2 ^ 23 \<and> E = E0 + 1"
      using r r' by (simp split: if_splits)
    then show ?thesis using True truncated_normalise [of E0] by simp
  next
    case False
    then have "M = M0 \<and> E = E0"
      using r r' by (simp split: if_splits)
    then show ?thesis by simp
  qed
  show ?thesis
  proof (cases "0 \<le> E0")
    case True
    then have k: "23 \<le> floor_log2 a b" "E0 = floor_log2 a b - 23"
      by (simp_all add: E0_def)
    define B where "B = b * 2 ^ nat E0"
    have nk: "nat (floor_log2 a b) = nat E0 + 23" using k by simp
    have "b * 2 ^ nat (floor_log2 a b) \<le> a"
      using k by (intro floor_log2_lower a b) simp
    then have lo: "2 ^ 23 * B \<le> a"
      by (simp add: nk power_add B_def mult.assoc)
    have Bp: "0 < B" using b by (simp add: B_def)
    have m: "M0 = round_half_even a B" using True by (simp add: M0_def B_def)
    have e: "2 * a \<le> 2 * (M0 * B) + B" "2 * (M0 * B) \<le> 2 * a + B"
      using round_half_even_error [OF Bp, of a] m by simp_all
    have tb: "truncated M0 E0 * b = M0 * B"
      using True by (simp add: truncated_def B_def)
    have "2 * \<bar>int (M0 * B) - int a\<bar> \<le> int B"
    proof -
      define X where "X = M0 * B"
      have "2 * a \<le> 2 * X + B" "2 * X \<le> 2 * a + B" using e by (simp_all add: X_def)
      then have "2 * \<bar>int X - int a\<bar> \<le> int B" by arith
      then show ?thesis by (simp only: X_def)
    qed
    then have "2 ^ 24 * \<bar>int (M0 * B) - int a\<bar> \<le> 2 ^ 23 * int B"
      by simp
    also have "\<dots> \<le> int a" using lo by (metis of_nat_le_iff of_nat_mult of_nat_numeral of_nat_power)
    finally have "2 ^ 24 * \<bar>int (truncated M0 E0 * b) - int a\<bar> \<le> int a"
      by (simp add: tb)
    then show ?thesis using t by simp
  next
    case False
    define P :: nat where "P = 2 ^ nat (- E0)"
    have P2: "2 \<le> P"
    proof -
      have "nat (- E0) = Suc (nat (- E0) - 1)" using False by simp
      then have "P = 2 * 2 ^ (nat (- E0) - 1)" by (metis P_def power_Suc)
      then show ?thesis by simp
    qed
    have m: "M0 = round_half_even (a * P) b" using False by (simp add: M0_def P_def)
    have e: "2 * (a * P) \<le> 2 * (M0 * b) + b" "2 * (M0 * b) \<le> 2 * (a * P) + b"
      using round_half_even_error [OF b, of "a * P"] m by simp_all
    define T where "T = truncated M0 E0"
    have T: "T = M0 div P" using False by (simp add: T_def truncated_def P_def)
    have d: "T * P \<le> M0" "M0 < (T + 1) * P"
    proof -
      show "T * P \<le> M0" by (simp add: T)
      have "0 < P" using P2 by simp
      from dividend_less_div_times [OF this, of M0] show "M0 < (T + 1) * P"
        by (simp add: T)
    qed
    have up: "T * b \<le> a + b"
    proof -
      have "T * b * (2 * P) = 2 * (T * P * b)" by (simp add: ac_simps)
      also have "\<dots> \<le> 2 * (M0 * b)" using d(1) by (simp add: mult_le_mono1)
      also have "\<dots> \<le> 2 * (a * P) + b" by (rule e(2))
      also have "\<dots> \<le> 2 * (a * P) + b * (2 * P)" using P2 by simp
      also have "\<dots> = (a + b) * (2 * P)" by (simp add: algebra_simps)
      finally have "T * b * (2 * P) \<le> (a + b) * (2 * P)" .
      then show ?thesis using P2 by simp
    qed
    have lo: "a < (T + 1) * b"
    proof -
      have m1: "M0 + 1 \<le> (T + 1) * P" using d(2) by simp
      have "a * (2 * P) = 2 * (a * P)" by (simp add: ac_simps)
      also have "\<dots> \<le> 2 * (M0 * b) + b" by (rule e(1))
      also have "\<dots> < 2 * (M0 * b) + 2 * b" using b by simp
      also have "\<dots> = 2 * ((M0 + 1) * b)" by (simp add: algebra_simps)
      also have "\<dots> \<le> 2 * ((T + 1) * P * b)"
        by (intro mult_le_mono2 mult_le_mono1 m1)
      also have "\<dots> = (T + 1) * b * (2 * P)" by (simp add: algebra_simps)
      finally have "a * (2 * P) < (T + 1) * b * (2 * P)" .
      then show ?thesis by simp
    qed
    have "\<bar>int (T * b) - int a\<bar> \<le> int b"
    proof -
      define X where "X = T * b"
      have "X \<le> a + b" "a < X + b" using up lo by (simp_all add: X_def)
      then have "\<bar>int X - int a\<bar> \<le> int b" by arith
      then show ?thesis by (simp only: X_def)
    qed
    then have "2 ^ 24 * \<bar>int (T * b) - int a\<bar> \<le> 2 ^ 24 * int b"
      by simp
    then show ?thesis using t by (simp add: T_def)
  qed
qed

lemma interval_accuracy:
  assumes m: "0 < m" and r: "in_uint32_range (div_1000000 (Finite False m e))"
    and q: "quotient_1000000 m e = (a, b)"
  shows "2 ^ 24 * \<bar>int (unat (float_to_uint32 out_of_range (div_1000000 (Finite False m e))))
            * int b - int a\<bar> \<le> int a + 2 ^ 24 * int b"
proof -
  have ab: "0 < a" "0 < b"
    using q m by (auto simp: quotient_1000000_def split: if_splits)
  obtain M E where rf: "round_float32 a b = Finite False M E"
    and d: "div_1000000 (Finite False m e) = Finite False M E"
    using r m q
    by (cases "round_float32 a b")
      (auto simp: div_1000000_def in_uint32_range_def round_float32_def Let_def
         split: if_splits prod.splits)
  have "truncated M E < 2 ^ 32"
    using r d by (auto simp: in_uint32_range_def)
  then have "unat (float_to_uint32 out_of_range (div_1000000 (Finite False m e))) = truncated M E"
    using r d by (simp add: float_to_uint32_def unat_of_nat)
  then show ?thesis
    using round_float32_accuracy [OF ab rf] by simp
qed

text \<open>
  Quotients \<open>1000000 / rate\<close> in single precision: for 44 Hz, for \<open>3 * 2 ^ - 15\<close> Hz, and
  for \<open>9612981 * 2 ^ - 30\<close> Hz, where the rounding of the quotient shows (the exact
  quotient is 111697071.28).
\<close>

lemma div_1000000_44: "div_1000000 (Finite False 11 2) = Finite False 11636364 (- 9)"
proof -
  have "floor_log2 1000000 44 = 14"
    by (simp add: floor_log2_def Let_def bitlen.simps)
  then have "round_float32 1000000 44 = Finite False 11636364 (- 9)"
    by (simp add: round_float32_def round_half_even_def Let_def)
  then show ?thesis by (simp add: div_1000000_def quotient_1000000_def)
qed

lemma div_1000000_small: "div_1000000 (Finite False 3 (- 15)) = Finite False 10666667 10"
proof -
  have "floor_log2 32768000000 3 = 33"
    by (simp add: floor_log2_def Let_def bitlen.simps)
  then have "round_float32 32768000000 3 = Finite False 10666667 10"
    by (simp add: round_float32_def round_half_even_def Let_def)
  then show ?thesis by (simp add: div_1000000_def quotient_1000000_def)
qed

lemma div_1000000_rounded:
  "div_1000000 (Finite False 9612981 (- 30)) = Finite False 13962134 3"
proof -
  have "floor_log2 1073741824000000 9612981 = 26"
    by (simp add: floor_log2_def Let_def bitlen.simps)
  then have "round_float32 1073741824000000 9612981 = Finite False 13962134 3"
    by (simp add: round_float32_def round_half_even_def Let_def)
  then show ?thesis by (simp add: div_1000000_def quotient_1000000_def)
qed

lemma interval_rounded:
  "float_to_uint32 out_of_range (div_1000000 (Finite False 9612981 (- 30))) = 111697072"
  by (simp add: div_1000000_rounded float_to_uint32_def in_uint32_range_def truncated_def)

lemma interval_44:
  "in_uint32_range (div_1000000 (Finite False 11 2))"
  "float_to_uint32 out_of_range (div_1000000 (Finite False 11 2)) = 22727"
  by (simp_all add: div_1000000_44 float_to_uint32_def in_uint32_range_def truncated_def)

lemma interval_small:
  "\<not> in_uint32_range (div_1000000 (Finite False 3 (- 15)))"
  "float_to_uint32 out_of_range (div_1000000 (Finite False 3 (- 15)))
     = out_of_range (Finite False 10666667 10)"
  by (simp_all add: div_1000000_small float_to_uint32_def in_uint32_range_def truncated_def)

lemma interval_infinity: "float_to_uint32 out_of_range (div_1000000 (Infinity False)) = 0"
  by (simp add: div_1000000_def float_to_uint32_def in_uint32_range_def truncated_def)

text \<open>
  Claim C6, with the interval as the program computes it. In a well-formed system,
  \<^verbatim>\<open>setRefreshRate(rate)\<close> returns false and changes nothing when the rate is a NaN or
  below zero. For every rate that is accepted and not zero it returns true and stores the
  rate; if the stored rate was 0 the instance is first ended and then begun, otherwise
  nothing else changes; the interval becomes the conversion to 32 bits of the quotient
  \<open>1000000 / rate\<close>, which was rounded to single precision. When the rate is the finite
  value \<open>m * 2 ^ e\<close> and the rounded quotient, truncated, is a 32-bit number, the interval is
  that number, and it differs from the exact quotient \<open>q = a / b\<close> by at most
  \<open>1 + q / 2 ^ 24\<close>; otherwise the interval is whatever the conversion yields outside its
  range. For the rate 0 the call returns true, stores the rate and sets the interval to
  the largest 32-bit number.
\<close>

theorem setRefreshRate_validates:
  assumes "instances_wf w" "registry_ok w"
  shows
    "(is_nan rate \<or> less_zero rate \<longrightarrow> setRefreshRate out_of_range rate this w = Inr (False, w))
     \<and> (\<not> is_nan rate \<and> \<not> less_zero rate \<and> \<not> equals_zero rate \<longrightarrow>
        (\<exists>w1. setRefreshRate out_of_range rate this w =
                 Inr (True, upd this (\<lambda>s. s\<lparr>breakToBreakTime' :=
                                                float_to_uint32 out_of_range (div_1000000 rate),
                                              refreshRate' := rate\<rparr>) w1)
           \<and> (if equals_zero (refreshRate' (senders w this))
               then \<exists>w0. Sender_end this w = Inr w0 \<and> Sender_begin this w0 = Inr w1
               else w1 = w))
        \<and> (\<forall>m e a b. rate = Finite False m e \<and> quotient_1000000 m e = (a, b)
                \<and> in_uint32_range (div_1000000 rate) \<longrightarrow>
              2 ^ 24 * \<bar>int (unat (float_to_uint32 out_of_range (div_1000000 rate))) * int b
                         - int a\<bar> \<le> int a + 2 ^ 24 * int b)
        \<and> (\<not> in_uint32_range (div_1000000 rate) \<longrightarrow>
              float_to_uint32 out_of_range (div_1000000 rate)
                = out_of_range (div_1000000 rate)))
     \<and> (\<not> is_nan rate \<and> \<not> less_zero rate \<and> equals_zero rate \<longrightarrow>
        setRefreshRate out_of_range rate this w =
          Inr (True, upd this (\<lambda>s. s\<lparr>breakToBreakTime' := 0xFFFFFFFF, refreshRate' := rate\<rparr>) w))"
proof -
  let ?t = "float_to_uint32 out_of_range (div_1000000 rate)"
  have reject: "is_nan rate \<or> less_zero rate \<longrightarrow>
      setRefreshRate out_of_range rate this w = Inr (False, w)"
    by (auto simp: setRefreshRate_def)
  have zero: "\<not> is_nan rate \<and> \<not> less_zero rate \<and> equals_zero rate \<longrightarrow>
        setRefreshRate out_of_range rate this w =
          Inr (True, upd this (\<lambda>s. s\<lparr>breakToBreakTime' := 0xFFFFFFFF, refreshRate' := rate\<rparr>) w)"
    by (simp add: setRefreshRate_def)
  have accept: "\<not> is_nan rate \<and> \<not> less_zero rate \<and> \<not> equals_zero rate \<longrightarrow>
        (\<exists>w1. setRefreshRate out_of_range rate this w =
                 Inr (True, upd this (\<lambda>s. s\<lparr>breakToBreakTime' := ?t, refreshRate' := rate\<rparr>) w1)
           \<and> (if equals_zero (refreshRate' (senders w this))
               then \<exists>w0. Sender_end this w = Inr w0 \<and> Sender_begin this w0 = Inr w1
               else w1 = w))
        \<and> (\<forall>m e a b. rate = Finite False m e \<and> quotient_1000000 m e = (a, b)
                \<and> in_uint32_range (div_1000000 rate) \<longrightarrow>
              2 ^ 24 * \<bar>int (unat ?t) * int b - int a\<bar> \<le> int a + 2 ^ 24 * int b)
        \<and> (\<not> in_uint32_range (div_1000000 rate) \<longrightarrow> ?t = out_of_range (div_1000000 rate))"
  proof
    assume a: "\<not> is_nan rate \<and> \<not> less_zero rate \<and> \<not> equals_zero rate"
    have r: "\<exists>w1. setRefreshRate out_of_range rate this w =
                 Inr (True, upd this (\<lambda>s. s\<lparr>breakToBreakTime' := ?t, refreshRate' := rate\<rparr>) w1)
           \<and> (if equals_zero (refreshRate' (senders w this))
               then \<exists>w0. Sender_end this w = Inr w0 \<and> Sender_begin this w0 = Inr w1
               else w1 = w)"
    proof (cases "equals_zero (refreshRate' (senders w this))")
      case False
      then show ?thesis using a by (simp add: setRefreshRate_def)
    next
      case True
      obtain w0 where w0: "Sender_end this w = Inr w0" "instances_wf w0" "registry_ok w0"
        using Sender_end_props [OF assms, of this] by blast
      obtain w1 where w1: "Sender_begin this w0 = Inr w1"
        using Sender_begin_props [OF w0(2,3), of this] by blast
      have "setRefreshRate out_of_range rate this w =
                 Inr (True, upd this (\<lambda>s. s\<lparr>breakToBreakTime' := ?t, refreshRate' := rate\<rparr>) w1)"
        using a True w0(1) w1 by (simp add: setRefreshRate_def)
      then show ?thesis using True w0(1) w1 by auto
    qed
    have q: "\<forall>m e a b. rate = Finite False m e \<and> quotient_1000000 m e = (a, b)
                \<and> in_uint32_range (div_1000000 rate) \<longrightarrow>
              2 ^ 24 * \<bar>int (unat ?t) * int b - int a\<bar> \<le> int a + 2 ^ 24 * int b"
    proof (intro allI impI, elim conjE)
      fix m e a b
      assume f: "rate = Finite False m e" and ab: "quotient_1000000 m e = (a, b)"
        and i: "in_uint32_range (div_1000000 rate)"
      have "0 < m" using a f by (simp add: equals_zero_def)
      then show "2 ^ 24 * \<bar>int (unat ?t) * int b - int a\<bar> \<le> int a + 2 ^ 24 * int b"
        using interval_accuracy [of m e a b out_of_range] i ab unfolding f by blast
    qed
    have o: "\<not> in_uint32_range (div_1000000 rate) \<longrightarrow> ?t = out_of_range (div_1000000 rate)"
      by (simp add: float_to_uint32_def split: float32.splits)
    show "(\<exists>w1. setRefreshRate out_of_range rate this w =
                 Inr (True, upd this (\<lambda>s. s\<lparr>breakToBreakTime' := ?t, refreshRate' := rate\<rparr>) w1)
           \<and> (if equals_zero (refreshRate' (senders w this))
               then \<exists>w0. Sender_end this w = Inr w0 \<and> Sender_begin this w0 = Inr w1
               else w1 = w))
        \<and> (\<forall>m e a b. rate = Finite False m e \<and> quotient_1000000 m e = (a, b)
                \<and> in_uint32_range (div_1000000 rate) \<longrightarrow>
              2 ^ 24 * \<bar>int (unat ?t) * int b - int a\<bar> \<le> int a + 2 ^ 24 * int b)
        \<and> (\<not> in_uint32_range (div_1000000 rate) \<longrightarrow> ?t = out_of_range (div_1000000 rate))"
      by (intro conjI) (fact r, fact q, fact o)
  qed
  show ?thesis
    by (intro conjI) (fact reject, fact accept, fact zero)
qed

lemma wf_stored_rate:
  "instances_wf (upd 0 (\<lambda>s. s\<lparr>refreshRate' := r\<rparr>) world0)"
  "registry_ok (upd 0 (\<lambda>s. s\<lparr>refreshRate' := r\<rparr>) world0)"
proof -
  show "instances_wf (upd 0 (\<lambda>s. s\<lparr>refreshRate' := r\<rparr>) world0)"
    using world0_wf(1) by (intro instances_wf_upd) simp_all
  show "registry_ok (upd 0 (\<lambda>s. s\<lparr>refreshRate' := r\<rparr>) world0)"
    using world0_wf(2) by (auto simp: registry_ok_def)
qed

text \<open>
  On the Teensy 3.2 system: a NaN and \<open>- 1\<close> are refused, 44 Hz gives the interval 22727
  (the exact quotient is \<open>1000000 / 44\<close>), an infinite rate the interval 0, the rate 0 the
  largest interval, and after a stored rate of 0 both 44 Hz and \<open>3 * 2 ^ - 15\<close> Hz, whose
  quotient is no 32-bit number, end and begin the instance.
\<close>

theorem setRefreshRate_validates_witness:
  "setRefreshRate saturated NaN 0 world0 = Inr (False, world0)
   \<and> setRefreshRate saturated (Finite True 1 0) 0 world0 = Inr (False, world0)
   \<and> setRefreshRate saturated (Finite False 11 2) 0 world0 =
       Inr (True, upd 0 (\<lambda>s. s\<lparr>breakToBreakTime' := 22727, refreshRate' := Finite False 11 2\<rparr>)
                    world0)
   \<and> setRefreshRate saturated (Infinity False) 0 world0 =
       Inr (True, upd 0 (\<lambda>s. s\<lparr>breakToBreakTime' := 0, refreshRate' := Infinity False\<rparr>) world0)
   \<and> setRefreshRate saturated (Finite False 0 0) 0 world0 =
       Inr (True, upd 0 (\<lambda>s. s\<lparr>breakToBreakTime' := 0xFFFFFFFF,
                                 refreshRate' := Finite False 0 0\<rparr>) world0)
   \<and> (\<exists>w0 w1. Sender_end 0 (upd 0 (\<lambda>s. s\<lparr>refreshRate' := Finite False 0 0\<rparr>) world0) = Inr w0
         \<and> Sender_begin 0 w0 = Inr w1
         \<and> setRefreshRate saturated (Finite False 11 2) 0
              (upd 0 (\<lambda>s. s\<lparr>refreshRate' := Finite False 0 0\<rparr>) world0) =
            Inr (True, upd 0 (\<lambda>s. s\<lparr>breakToBreakTime' := 22727,
                                      refreshRate' := Finite False 11 2\<rparr>) w1)
         \<and> setRefreshRate saturated (Finite False 3 (- 15)) 0
              (upd 0 (\<lambda>s. s\<lparr>refreshRate' := Finite False 0 0\<rparr>) world0) =
            Inr (True, upd 0 (\<lambda>s. s\<lparr>breakToBreakTime' := 0xFFFFFFFF,
                                      refreshRate' := Finite False 3 (- 15)\<rparr>) w1))
   \<and> quotient_1000000 11 2 = (1000000, 44)
   \<and> 2 ^ 24 * \<bar>int (unat (22727 :: uint32_t)) * int 44 - int 1000000\<bar>
       \<le> int 1000000 + 2 ^ 24 * int 44"
proof -
  let ?z = "upd 0 (\<lambda>s. s\<lparr>refreshRate' := Finite False 0 0\<rparr>) world0"
  have c: "is_nan NaN" "less_zero (Finite True 1 0)"
    "\<not> is_nan (Finite False 11 2) \<and> \<not> less_zero (Finite False 11 2)
     \<and> \<not> equals_zero (Finite False 11 2)"
    "\<not> is_nan (Infinity False) \<and> \<not> less_zero (Infinity False) \<and> \<not> equals_zero (Infinity False)"
    "\<not> is_nan (Finite False 0 0) \<and> \<not> less_zero (Finite False 0 0)
     \<and> equals_zero (Finite False 0 0)"
    "\<not> is_nan (Finite False 3 (- 15)) \<and> \<not> less_zero (Finite False 3 (- 15))
     \<and> \<not> equals_zero (Finite False 3 (- 15))"
    by (simp_all add: is_nan_def less_zero_def equals_zero_def)
  have r0: "\<not> equals_zero (refreshRate' (senders world0 0))"
    by (simp add: world0_def Sender_def setBreakTime_def setMABTime_def Let_def equals_zero_def)
  have r1: "equals_zero (refreshRate' (senders ?z 0))"
    by (simp add: equals_zero_def)
  have small: "float_to_uint32 saturated (div_1000000 (Finite False 3 (- 15))) = 0xFFFFFFFF"
    by (simp add: interval_small saturated_def)
  have "setRefreshRate saturated NaN 0 world0 = Inr (False, world0)"
    using setRefreshRate_validates [OF world0_wf, of NaN saturated 0] c(1) by blast
  moreover have "setRefreshRate saturated (Finite True 1 0) 0 world0 = Inr (False, world0)"
    using setRefreshRate_validates [OF world0_wf, of "Finite True 1 0" saturated 0] c(2) by blast
  moreover have "setRefreshRate saturated (Finite False 11 2) 0 world0 =
       Inr (True, upd 0 (\<lambda>s. s\<lparr>breakToBreakTime' := 22727, refreshRate' := Finite False 11 2\<rparr>)
                    world0)"
    using setRefreshRate_validates [OF world0_wf, of "Finite False 11 2" saturated 0]
      c(3) interval_44(2) [of saturated] r0 by auto
  moreover have "setRefreshRate saturated (Infinity False) 0 world0 =
       Inr (True, upd 0 (\<lambda>s. s\<lparr>breakToBreakTime' := 0, refreshRate' := Infinity False\<rparr>) world0)"
    using setRefreshRate_validates [OF world0_wf, of "Infinity False" saturated 0]
      c(4) interval_infinity [of saturated] r0 by auto
  moreover have "setRefreshRate saturated (Finite False 0 0) 0 world0 =
       Inr (True, upd 0 (\<lambda>s. s\<lparr>breakToBreakTime' := 0xFFFFFFFF,
                                 refreshRate' := Finite False 0 0\<rparr>) world0)"
    using setRefreshRate_validates [OF world0_wf, of "Finite False 0 0" saturated 0] c(5) by blast
  moreover have "\<exists>w0 w1. Sender_end 0 ?z = Inr w0
         \<and> Sender_begin 0 w0 = Inr w1
         \<and> setRefreshRate saturated (Finite False 11 2) 0 ?z =
            Inr (True, upd 0 (\<lambda>s. s\<lparr>breakToBreakTime' := 22727,
                                      refreshRate' := Finite False 11 2\<rparr>) w1)
         \<and> setRefreshRate saturated (Finite False 3 (- 15)) 0 ?z =
            Inr (True, upd 0 (\<lambda>s. s\<lparr>breakToBreakTime' := 0xFFFFFFFF,
                                      refreshRate' := Finite False 3 (- 15)\<rparr>) w1)"
  proof -
    obtain w0 w1 where a: "Sender_end 0 ?z = Inr w0" "Sender_begin 0 w0 = Inr w1"
      "setRefreshRate saturated (Finite False 11 2) 0 ?z =
            Inr (True, upd 0 (\<lambda>s. s\<lparr>breakToBreakTime' := 22727,
                                      refreshRate' := Finite False 11 2\<rparr>) w1)"
      using setRefreshRate_validates [OF wf_stored_rate [of "Finite False 0 0"],
          of "Finite False 11 2" saturated 0] c(3) interval_44(2) [of saturated] r1
      by (simp only: if_True) blast
    obtain w0' w1' where b: "Sender_end 0 ?z = Inr w0'" "Sender_begin 0 w0' = Inr w1'"
      "setRefreshRate saturated (Finite False 3 (- 15)) 0 ?z =
            Inr (True, upd 0 (\<lambda>s. s\<lparr>breakToBreakTime' := 0xFFFFFFFF,
                                      refreshRate' := Finite False 3 (- 15)\<rparr>) w1')"
      using setRefreshRate_validates [OF wf_stored_rate [of "Finite False 0 0"],
          of "Finite False 3 (- 15)" saturated 0] c(6) small r1
      by (simp only: if_True) blast
    have "w0' = w0" using a(1) b(1) by simp
    then have "w1' = w1" using a(2) b(2) by simp
    then show ?thesis using a b by blast
  qed
  moreover have q: "quotient_1000000 11 2 = (1000000, 44)"
    by (simp add: quotient_1000000_def)
  moreover have "2 ^ 24 * \<bar>int (unat (22727 :: uint32_t)) * int 44 - int 1000000\<bar>
       \<le> int 1000000 + 2 ^ 24 * int 44"
    using setRefreshRate_validates [OF world0_wf, of "Finite False 11 2" saturated 0]
      c(3) interval_44(1) interval_44(2) [of saturated] q by (simp only:) blast
  ultimately show ?thesis by blast
qed

text \<open>
  The rate \<open>3 * 2 ^ - 15\<close> Hz is accepted and not zero. Whatever the conversion yields
  outside its range, the call returns true and stores an interval that is more than
  \<open>6 * 10 ^ 9\<close> below the quotient \<open>1000000 / rate\<close>.
\<close>

lemma slow_rate_any_conversion:
  "\<exists>t. setRefreshRate out_of_range (Finite False 3 (- 15)) 0 world0 =
           Inr (True, upd 0 (\<lambda>s. s\<lparr>breakToBreakTime' := t,
                                     refreshRate' := Finite False 3 (- 15)\<rparr>) world0)
         \<and> t = out_of_range (Finite False 10666667 10)
         \<and> unat t + 6000000000 < 32768000000 div 3"
proof -
  have r0: "\<not> equals_zero (refreshRate' (senders world0 0))"
    by (simp add: world0_def Sender_def setBreakTime_def setMABTime_def Let_def equals_zero_def)
  have c: "\<not> is_nan (Finite False 3 (- 15))" "\<not> less_zero (Finite False 3 (- 15))"
    "\<not> equals_zero (Finite False 3 (- 15))"
    by (simp_all add: is_nan_def less_zero_def equals_zero_def)
  have call: "setRefreshRate out_of_range (Finite False 3 (- 15)) 0 world0 =
       Inr (True, upd 0 (\<lambda>s. s\<lparr>breakToBreakTime' := out_of_range (Finite False 10666667 10),
                                 refreshRate' := Finite False 3 (- 15)\<rparr>) world0)"
    using r0 c by (simp add: setRefreshRate_def interval_small)
  have bound: "unat t + 6000000000 < 32768000000 div 3" for t :: uint32_t
  proof -
    have "unat t < 2 ^ 32" using unsigned_less [of t] by simp
    then show ?thesis by simp
  qed
  show ?thesis using call bound by blast
qed

text \<open>
  A rate that is accepted and not zero, \<open>3 * 2 ^ - 15\<close> Hz: the call returns true and the
  rate is stored, but the quotient of about \<open>1.09 * 10 ^ 10\<close> microseconds is not a 32-bit
  number. With the saturating conversion the interval becomes the largest 32-bit number,
  which is not \<open>1000000 / rate\<close>.
\<close>

theorem setRefreshRate_interval_counterexample:
  "valid_float32 (Finite False 3 (- 15))
   \<and> \<not> is_nan (Finite False 3 (- 15)) \<and> \<not> less_zero (Finite False 3 (- 15))
   \<and> \<not> equals_zero (Finite False 3 (- 15))
   \<and> quotient_1000000 3 (- 15) = (32768000000, 3)
   \<and> div_1000000 (Finite False 3 (- 15)) = Finite False 10666667 10
   \<and> (2 :: nat) ^ 32 \<le> 10666667 * 2 ^ 10
   \<and> slow_rate_run = Inr (True, 0xFFFFFFFF, Finite False 3 (- 15))
   \<and> unat (0xFFFFFFFF :: uint32_t) + 6000000000 < 32768000000 div 3"
proof -
  obtain t where t: "setRefreshRate saturated (Finite False 3 (- 15)) 0 world0 =
           Inr (True, upd 0 (\<lambda>s. s\<lparr>breakToBreakTime' := t,
                                     refreshRate' := Finite False 3 (- 15)\<rparr>) world0)"
      "t = saturated (Finite False 10666667 10)"
    using slow_rate_any_conversion [of saturated] by blast
  have "t = 0xFFFFFFFF" using t(2) by (simp add: saturated_def)
  then have "slow_rate_run = Inr (True, 0xFFFFFFFF, Finite False 3 (- 15))"
    using t(1) by (simp add: slow_rate_run_def)
  moreover have "valid_float32 (Finite False 3 (- 15))"
    "quotient_1000000 3 (- 15) = (32768000000, 3)"
    "(2 :: nat) ^ 32 \<le> 10666667 * 2 ^ 10"
    "unat (0xFFFFFFFF :: uint32_t) + 6000000000 < 32768000000 div 3"
    "\<not> is_nan (Finite False 3 (- 15))" "\<not> less_zero (Finite False 3 (- 15))"
    "\<not> equals_zero (Finite False 3 (- 15))"
    by (simp_all add: valid_float32_def quotient_1000000_def is_nan_def less_zero_def
        equals_zero_def)
  ultimately show ?thesis
    using div_1000000_small by blast
qed


subsection \<open>The critical section and the transmit interrupt\<close>


lemma isr_quiet: "\<not> (began' (inst e) \<and> irqs_enabled e) \<Longrightarrow> isr e = e"
  by (auto simp: isr_def Let_def)

lemma run_schedule_append:
  "run_schedule (xs @ ys) e =
     (case run_schedule xs e of Inl f \<Rightarrow> Inl f | Inr e' \<Rightarrow> run_schedule ys e')"
  by (induction xs arbitrary: e) (simp_all split: sum.splits)

text \<open>Without interrupts in between, the steps of \<open>set16Bit\<close> are the function.\<close>

lemma set16Bit_events_sequential:
  "map_sum id inst (run_schedule (set16Bit_events channel v) e)
     = map_sum id snd (set16Bit channel v (inst e))"
  by (simp add: set16Bit_events_def set16Bit_def locked_def disableIRQs_def enableIRQs_def
      handler_call_def store_def split: sum.splits)

lemma set16Bit_events_shape:
  assumes "0 \<le> channel" "channel < 512"
  shows "\<exists>ws. set16Bit_events channel v = Enter # ws @ [Leave] \<and> (\<forall>x\<in>set ws. is_write x)"
proof -
  have "set16Bit_events channel v =
      Enter # [Write channel (ucast (drop_bit 8 v)), Write (int32 (channel + 1)) (ucast v)]
        @ [Leave]"
    using assms by (simp add: set16Bit_events_def kMaxDMXPacketSize_def)
  moreover have "\<forall>x\<in>set [Write channel (ucast (drop_bit 8 v)),
      Write (int32 (channel + 1)) (ucast v)]. is_write x"
    by simp
  ultimately show ?thesis by blast
qed

text \<open>Inside the critical section the handler does not run.\<close>

lemma run_schedule_quiet:
  assumes "\<not> (began' (inst e) \<and> irqs_enabled e)" and "\<forall>x\<in>set zs. x = Isr \<or> is_write x"
  shows "run_schedule zs e = run_schedule (filter (\<lambda>x. x \<noteq> Isr) zs) e"
  using assms
proof (induction zs arbitrary: e)
  case Nil
  then show ?case by simp
next
  case (Cons z zs)
  show ?case
  proof (cases z)
    case Isr
    then show ?thesis using Cons by (simp add: isr_quiet)
  next
    case (Write i v)
    show ?thesis
    proof (cases "store i v (outputBuf' (inst e))")
      case (Inl f)
      then show ?thesis using Write by simp
    next
      case (Inr b)
      let ?e = "e\<lparr>inst := (inst e)\<lparr>outputBuf' := b\<rparr>\<rparr>"
      have "\<not> (began' (inst ?e) \<and> irqs_enabled ?e)" using Cons.prems(1) by simp
      then have "run_schedule zs ?e = run_schedule (filter (\<lambda>x. x \<noteq> Isr) zs) ?e"
        using Cons.IH Cons.prems(2) by simp
      then show ?thesis using Write Inr by simp
    qed
  next
    case Enter
    then show ?thesis using Cons.prems(2) by simp
  next
    case Leave
    then show ?thesis using Cons.prems(2) by simp
  qed
qed

lemma step_enter_quiet:
  "step_event Enter e = Inr e' \<Longrightarrow> \<not> (began' (inst e') \<and> irqs_enabled e')"
  by (auto simp: disableIRQs_def handler_call_def split: sum.splits if_splits)

text \<open>The shape of a schedule around one critical section.\<close>

lemma all_isr_replicate:
  "\<forall>x\<in>set xs. x = Isr \<Longrightarrow> xs = replicate (length xs) Isr"
  by (induction xs) simp_all

lemma takeWhile_until:
  "\<forall>x\<in>set xs. P x \<Longrightarrow> \<not> P y \<Longrightarrow> takeWhile P (xs @ y # ys) = xs"
  by (induction xs) simp_all

lemma schedule_shape:
  assumes "filter (\<lambda>x. x \<noteq> Isr) sched = Enter # ws @ [Leave]" and "\<forall>x\<in>set ws. is_write x"
  shows "\<exists>mid. sched = replicate (length (takeWhile (\<lambda>x. x = Isr) sched)) Isr @ Enter # mid
            @ Leave # replicate (length (takeWhile (\<lambda>x. x = Isr) (rev sched))) Isr
          \<and> filter (\<lambda>x. x \<noteq> Isr) mid = ws \<and> (\<forall>x\<in>set mid. x = Isr \<or> is_write x)"
proof -
  obtain us rest where s: "sched = us @ Enter # rest" "\<forall>u\<in>set us. u = Isr"
      "filter (\<lambda>x. x \<noteq> Isr) rest = ws @ [Leave]"
    using assms(1) by (auto simp: filter_eq_Cons_iff)
  have "filter (\<lambda>x. x \<noteq> Isr) (rev rest) = Leave # rev ws"
    using s(3) by (simp add: rev_filter [symmetric])
  then obtain vs' mid' where r: "rev rest = vs' @ Leave # mid'" "\<forall>u\<in>set vs'. u = Isr"
      "filter (\<lambda>x. x \<noteq> Isr) mid' = rev ws"
    by (auto simp: filter_eq_Cons_iff)
  define mid vs where "mid = rev mid'" and "vs = rev vs'"
  have rest: "rest = mid @ Leave # vs"
  proof -
    have "rest = rev (vs' @ Leave # mid')" using r(1) by (metis rev_rev_ident)
    then show ?thesis by (simp add: mid_def vs_def)
  qed
  have vs: "\<forall>u\<in>set vs. u = Isr" using r(2) by (simp add: vs_def)
  have fm: "filter (\<lambda>x. x \<noteq> Isr) mid = ws"
    using r(3) by (simp add: mid_def rev_filter [symmetric] rev_swap)
  have us_eq: "takeWhile (\<lambda>x. x = Isr) sched = us"
    using s(1,2) by (simp add: takeWhile_until)
  have vs_eq: "takeWhile (\<lambda>x. x = Isr) (rev sched) = rev vs"
    using s(1) rest vs by (simp add: takeWhile_until)
  have m: "\<forall>x\<in>set mid. x = Isr \<or> is_write x"
  proof
    fix x assume "x \<in> set mid"
    then have "x = Isr \<or> x \<in> set (filter (\<lambda>x. x \<noteq> Isr) mid)" by auto
    then show "x = Isr \<or> is_write x" using fm assms(2) by auto
  qed
  have "sched = replicate (length us) Isr @ Enter # mid @ Leave # replicate (length vs) Isr"
    using s(1) rest all_isr_replicate [OF s(2)] all_isr_replicate [OF vs] by simp
  then show ?thesis using us_eq vs_eq fm m by auto
qed


lemma critical_section_serial:
  assumes "filter (\<lambda>x. x \<noteq> Isr) sched = Enter # ws @ [Leave]" and "\<forall>x\<in>set ws. is_write x"
  shows "run_schedule sched e0 =
           run_schedule (replicate (length (takeWhile (\<lambda>x. x = Isr) sched)) Isr @ Enter # ws
              @ Leave # replicate (length (takeWhile (\<lambda>x. x = Isr) (rev sched))) Isr) e0"
proof -
  let ?A = "replicate (length (takeWhile (\<lambda>x. x = Isr) sched)) Isr"
  let ?B = "replicate (length (takeWhile (\<lambda>x. x = Isr) (rev sched))) Isr"
  obtain mid where mid: "sched = ?A @ Enter # mid @ Leave # ?B"
      "filter (\<lambda>x. x \<noteq> Isr) mid = ws" "\<forall>x\<in>set mid. x = Isr \<or> is_write x"
    using schedule_shape [OF assms] by blast
  have key: "run_schedule (Enter # mid @ Leave # ?B) e = run_schedule (Enter # ws @ Leave # ?B) e"
    for e
  proof (cases "step_event Enter e")
    case (Inl f)
    then show ?thesis by simp
  next
    case (Inr eb)
    have "run_schedule mid eb = run_schedule ws eb"
      using run_schedule_quiet [OF step_enter_quiet [OF Inr] mid(3)] mid(2) by simp
    then show ?thesis using Inr by (simp add: run_schedule_append)
  qed
  have "run_schedule sched e0 = run_schedule (?A @ Enter # mid @ Leave # ?B) e0"
    using mid(1) by simp
  also have "\<dots> = run_schedule (?A @ Enter # ws @ Leave # ?B) e0"
    by (simp only: run_schedule_append [of ?A] key)
  finally show ?thesis .
qed

text \<open>What \<open>k\<close> runs of the handler push: the next \<open>k\<close> bytes of the packet, as far as it goes.\<close>

lemma run_schedule_isrs:
  assumes "began' (inst e)" "irqs_enabled e" "0 \<le> outputBufIndex' (inst e)"
  shows "run_schedule (replicate k Isr) e =
     Inr (e\<lparr>inst := (inst e)\<lparr>outputBufIndex' := outputBufIndex' (inst e)
               + int (length (take k (drop (nat (outputBufIndex' (inst e)))
                       (take (nat (packetSize' (inst e))) (outputBuf' (inst e))))))\<rparr>,
            pushed := pushed e @ take k (drop (nat (outputBufIndex' (inst e)))
                       (take (nat (packetSize' (inst e))) (outputBuf' (inst e))))\<rparr>)"
  using assms
proof (induction k arbitrary: e)
  case 0
  then show ?case by simp
next
  case (Suc k)
  define i where "i = nat (outputBufIndex' (inst e))"
  define pkt where "pkt = take (nat (packetSize' (inst e))) (outputBuf' (inst e))"
  have idx: "outputBufIndex' (inst e) = int i" using Suc.prems(3) by (simp add: i_def)
  show ?case
  proof (cases "i < length pkt")
    case True
    then have c: "outputBufIndex' (inst e) < packetSize' (inst e)"
        "outputBufIndex' (inst e) < int (length (outputBuf' (inst e)))"
      using idx by (auto simp: pkt_def)
    let ?e = "e\<lparr>inst := (inst e)\<lparr>outputBufIndex' := int i + 1\<rparr>,
                pushed := pushed e @ [outputBuf' (inst e) ! i]\<rparr>"
    have s: "isr e = ?e"
      using Suc.prems c idx by (simp add: isr_def Let_def)
    have n: "pkt ! i = outputBuf' (inst e) ! i"
      using True by (simp add: pkt_def)
    have t: "take (Suc k) (drop i pkt) = pkt ! i # take k (drop (Suc i) pkt)"
      using True by (simp add: Cons_nth_drop_Suc [symmetric])
    have i1: "nat (int i + 1) = Suc i" by simp
    have "run_schedule (replicate k Isr) ?e =
       Inr (?e\<lparr>inst := (inst ?e)\<lparr>outputBufIndex' := outputBufIndex' (inst ?e)
               + int (length (take k (drop (nat (outputBufIndex' (inst ?e)))
                       (take (nat (packetSize' (inst ?e))) (outputBuf' (inst ?e))))))\<rparr>,
            pushed := pushed ?e @ take k (drop (nat (outputBufIndex' (inst ?e)))
                       (take (nat (packetSize' (inst ?e))) (outputBuf' (inst ?e))))\<rparr>)"
      using Suc.prems by (intro Suc.IH) simp_all
    then show ?thesis
      using s t n True by (simp add: idx i1 pkt_def [symmetric])
  next
    case False
    then have "\<not> (outputBufIndex' (inst e) < packetSize' (inst e)
        \<and> outputBufIndex' (inst e) < int (length (outputBuf' (inst e))))"
      using idx by (auto simp: pkt_def)
    then have s: "isr e = e" by (auto simp: isr_def Let_def)
    have d: "drop i pkt = []" using False by simp
    show ?thesis
      using Suc.IH [OF Suc.prems] s d by (simp add: i_def [symmetric] pkt_def [symmetric])
  qed
qed

text \<open>The critical section neither reads nor writes the index and the pushed bytes.\<close>

lemma run_schedule_frame:
  assumes "Isr \<notin> set zs"
  shows "run_schedule zs (e\<lparr>inst := (inst e)\<lparr>outputBufIndex' := j\<rparr>, pushed := p\<rparr>) =
     (case run_schedule zs e of
        Inl f \<Rightarrow> Inl f
      | Inr e' \<Rightarrow> Inr (e'\<lparr>inst := (inst e')\<lparr>outputBufIndex' := j\<rparr>, pushed := p\<rparr>))"
  using assms
proof (induction zs arbitrary: e)
  case Nil
  then show ?case by simp
next
  case (Cons z zs)
  have st: "step_event z (e\<lparr>inst := (inst e)\<lparr>outputBufIndex' := j\<rparr>, pushed := p\<rparr>) =
     (case step_event z e of
        Inl f \<Rightarrow> Inl f
      | Inr e' \<Rightarrow> Inr (e'\<lparr>inst := (inst e')\<lparr>outputBufIndex' := j\<rparr>, pushed := p\<rparr>))"
    using Cons.prems
    by (cases z)
      (simp_all add: disableIRQs_def enableIRQs_def handler_call_def store_def split: sum.splits)
  show ?case
  proof (cases "step_event z e")
    case (Inl f)
    then show ?thesis using st by simp
  next
    case (Inr e')
    then show ?thesis using st Cons.IH [of e'] Cons.prems by simp
  qed
qed

lemma critical_section_frame:
  assumes "run_schedule (Enter # ws @ [Leave]) e = Inr e'" and "\<forall>x\<in>set ws. is_write x"
    and "began' (inst e)"
  shows "began' (inst e') \<and> irqs_enabled e' \<and> packetSize' (inst e') = packetSize' (inst e)
    \<and> outputBufIndex' (inst e') = outputBufIndex' (inst e) \<and> pushed e' = pushed e"
proof -
  have w: "run_schedule ws a = Inr b \<Longrightarrow>
      began' (inst b) = began' (inst a) \<and> packetSize' (inst b) = packetSize' (inst a)
      \<and> outputBufIndex' (inst b) = outputBufIndex' (inst a) \<and> pushed b = pushed a" for a b
    using assms(2)
  proof (induction ws arbitrary: a)
    case Nil
    then show ?case by simp
  next
    case (Cons x xs)
    then obtain i v where x: "x = Write i v" by (cases x) simp_all
    obtain buf where s: "store i v (outputBuf' (inst a)) = Inr buf"
      using Cons.prems(1) x by (cases "store i v (outputBuf' (inst a))") simp_all
    show ?case
      using Cons.IH [of "a\<lparr>inst := (inst a)\<lparr>outputBuf' := buf\<rparr>\<rparr>"] Cons.prems x s by simp
  qed
  obtain a where a: "step_event Enter e = Inr a" "run_schedule (ws @ [Leave]) a = Inr e'"
    using assms(1) by (cases "step_event Enter e") simp_all
  obtain b where b: "run_schedule ws a = Inr b" "step_event Leave b = Inr e'"
    using a(2) by (cases "run_schedule ws a") (simp_all add: run_schedule_append split: sum.splits)
  have fa: "began' (inst a) \<and> packetSize' (inst a) = packetSize' (inst e)
      \<and> outputBufIndex' (inst a) = outputBufIndex' (inst e) \<and> pushed a = pushed e"
    using a(1) assms(3)
    by (auto simp: disableIRQs_def handler_call_def split: sum.splits if_splits)
  have fb: "began' (inst b) \<and> packetSize' (inst b) = packetSize' (inst e)
      \<and> outputBufIndex' (inst b) = outputBufIndex' (inst e) \<and> pushed b = pushed e"
    using w [OF b(1)] fa by simp
  show ?thesis
    using b(2) fb
    by (auto simp: enableIRQs_def handler_call_def split: sum.splits if_splits)
qed


text \<open>
  Claim C9, as far as it holds. Take any schedule that interleaves runs of the interrupt
  handler with one critical section of stores (\<^verbatim>\<open>set16Bit\<close>, or a range write). The handler
  runs that fall inside the critical section do nothing, so the schedule has the result of
  the schedule in which the \<open>k\<close> handler runs before the section come first, then the whole
  section, then the \<open>n\<close> handler runs after it: no handler run sees the buffer with only a
  part of the stores done. On an instance that has begun, the bytes pushed are therefore the
  next bytes of the packet read from the buffer as it was before the write, followed by the
  next bytes read from the buffer as it is after the whole write. The place where the two
  meet is where the handler stood when the write happened; it can lie inside the range
  written, between the two bytes of a 16-bit value.
\<close>

theorem critical_section_atomic:
  assumes "filter (\<lambda>x. x \<noteq> Isr) sched = Enter # ws @ [Leave]" and "\<forall>x\<in>set ws. is_write x"
  shows
    "run_schedule sched e0 =
       run_schedule (replicate (length (takeWhile (\<lambda>x. x = Isr) sched)) Isr @ Enter # ws
          @ Leave # replicate (length (takeWhile (\<lambda>x. x = Isr) (rev sched))) Isr) e0
     \<and> (\<forall>e1. began' (inst e0) \<and> irqs_enabled e0 \<and> 0 \<le> outputBufIndex' (inst e0)
            \<and> run_schedule (Enter # ws @ [Leave]) e0 = Inr e1 \<longrightarrow>
          (\<exists>e. run_schedule sched e0 = Inr e \<and> outputBuf' (inst e) = outputBuf' (inst e1)
             \<and> (let k = length (takeWhile (\<lambda>x. x = Isr) sched);
                     n = length (takeWhile (\<lambda>x. x = Isr) (rev sched));
                     size = nat (packetSize' (inst e0));
                     i = nat (outputBufIndex' (inst e0));
                     before = take k (drop i (take size (outputBuf' (inst e0))));
                     after = take n (drop (i + length before) (take size (outputBuf' (inst e1))))
                 in pushed e = pushed e0 @ before @ after)))"
proof (intro conjI allI impI, fact critical_section_serial [OF assms], elim conjE)
  fix e1
  assume b: "began' (inst e0)" and q: "irqs_enabled e0" and z: "0 \<le> outputBufIndex' (inst e0)"
    and c: "run_schedule (Enter # ws @ [Leave]) e0 = Inr e1"
  define k n where "k = length (takeWhile (\<lambda>x. x = Isr) sched)"
    and "n = length (takeWhile (\<lambda>x. x = Isr) (rev sched))"
  define size i where "size = nat (packetSize' (inst e0))" and "i = nat (outputBufIndex' (inst e0))"
  define before where "before = take k (drop i (take size (outputBuf' (inst e0))))"
  define after where
    "after = take n (drop (i + length before) (take size (outputBuf' (inst e1))))"
  define j where "j = outputBufIndex' (inst e0) + int (length before)"
  define ea where "ea = e0\<lparr>inst := (inst e0)\<lparr>outputBufIndex' := j\<rparr>, pushed := pushed e0 @ before\<rparr>"
  define eb where "eb = e1\<lparr>inst := (inst e1)\<lparr>outputBufIndex' := j\<rparr>, pushed := pushed e0 @ before\<rparr>"
  define e where "e = eb\<lparr>inst := (inst eb)\<lparr>outputBufIndex' := j + int (length after)\<rparr>,
                        pushed := pushed eb @ after\<rparr>"
  have f1: "began' (inst e1)" "irqs_enabled e1" "packetSize' (inst e1) = packetSize' (inst e0)"
    using critical_section_frame [OF c assms(2) b] by simp_all
  have nj: "nat j = i + length before" using z by (simp add: j_def i_def)
  have ra: "run_schedule (replicate k Isr) e0 = Inr ea"
    using run_schedule_isrs [OF b q z, where k = k]
    by (simp add: ea_def j_def before_def i_def size_def)
  have ni: "Isr \<notin> set (Enter # ws @ [Leave])" using assms(2) by auto
  have rb: "run_schedule (Enter # ws @ [Leave]) ea = Inr eb"
    using run_schedule_frame [OF ni, where e = e0 and j = j and p = "pushed e0 @ before"] c
    by (simp add: ea_def eb_def)
  have eb: "began' (inst eb)" "irqs_enabled eb" "0 \<le> outputBufIndex' (inst eb)"
    using f1 z by (simp_all add: eb_def j_def)
  have re: "run_schedule (replicate n Isr) eb = Inr e"
    using run_schedule_isrs [OF eb, where k = n] f1(3) nj
    by (simp add: e_def eb_def after_def size_def)
  have "run_schedule (replicate k Isr @ (Enter # ws @ [Leave]) @ replicate n Isr) e0 = Inr e"
    using ra rb re by (simp only: run_schedule_append sum.case)
  then have "run_schedule sched e0 = Inr e"
    using critical_section_serial [OF assms, where ?e0.0 = e0] by (simp add: k_def n_def)
  moreover have "outputBuf' (inst e) = outputBuf' (inst e1)"
    by (simp add: e_def eb_def)
  moreover have "pushed e = pushed e0 @ before @ after"
    by (simp add: e_def eb_def)
  ultimately show "\<exists>e. run_schedule sched e0 = Inr e \<and> outputBuf' (inst e) = outputBuf' (inst e1)
             \<and> (let k = length (takeWhile (\<lambda>x. x = Isr) sched);
                     n = length (takeWhile (\<lambda>x. x = Isr) (rev sched));
                     size = nat (packetSize' (inst e0));
                     i = nat (outputBufIndex' (inst e0));
                     before = take k (drop i (take size (outputBuf' (inst e0))));
                     after = take n (drop (i + length before) (take size (outputBuf' (inst e1))))
                 in pushed e = pushed e0 @ before @ after)"
    unfolding Let_def k_def n_def size_def i_def before_def after_def by blast
qed

text \<open>The steps of \<open>set16Bit(1, 0x1234)\<close>, and their effect on the instance of \<open>engine0\<close>.\<close>

lemma set16Bit_events_1234:
  "set16Bit_events 1 0x1234 = [Enter, Write 1 0x12, Write 2 0x34, Leave]"
proof -
  have "ucast (drop_bit 8 (0x1234 :: uint16_t)) = (0x12 :: uint8_t)"
    "ucast (0x1234 :: uint16_t) = (0x34 :: uint8_t)"
    by (simp_all add: drop_bit_eq_div)
  then show ?thesis
    by (simp add: set16Bit_events_def kMaxDMXPacketSize_def int32_def)
qed

lemma engine0_inst:
  "began' (inst engine0)" "sendHandler' (inst engine0)" "irqs_enabled engine0"
  "outputBufIndex' (inst engine0) = 0" "packetSize' (inst engine0) = 513"
  "outputBuf' (inst engine0) = replicate 513 0" "pushed engine0 = []"
  by (simp_all add: engine0_def Sender_def setBreakTime_def setMABTime_def Let_def teensy32_def
      kMaxDMXPacketSize_def)

lemma engine0_write:
  "run_schedule [Enter, Write 1 0x12, Write 2 0x34, Leave] engine0 =
     Inr (engine0\<lparr>inst := (inst engine0)\<lparr>outputBuf' := (replicate 513 0)[1 := 0x12, 2 := 0x34],
            calls := calls (inst engine0)
               @ [HandlerSetIRQsEnabled False, HandlerSetIRQsEnabled True]\<rparr>\<rparr>)"
  using engine0_inst
  by (simp add: disableIRQs_def enableIRQs_def handler_call_def store_def)

lemma buffer_1234:
  "take 3 ((replicate 513 (0 :: uint8_t))[Suc 0 := 0x12, 2 := 0x34]) = [0, 0x12, 0x34]"
  "take (Suc 0) (drop (Suc 0) ((replicate 513 (0 :: uint8_t))[Suc 0 := 0x12, 2 := 0x34])) = [0x12]"
  "take (Suc 0) (drop 2 ((replicate 513 (0 :: uint8_t))[Suc 0 := 0x12, 2 := 0x34])) = [0x34]"
  "replicate 3 (0 :: uint8_t) = [0, 0, 0]"
  "replicate 2 (0 :: uint8_t) = [0, 0]"
  by (simp_all add: list_eq_iff_nth_eq nth_list_update nth_Cons' less_Suc_eq)

text \<open>
  On \<open>engine0\<close>: one handler run, then \<open>set16Bit(1, 0x1234)\<close> with a handler run that falls
  between its two stores, then one more handler run. The run in the middle does nothing;
  the packet starts with the start code 0, read before the write, and 0x12, read after it.
\<close>

theorem critical_section_atomic_witness:
  "filter (\<lambda>x. x \<noteq> Isr) [Isr, Enter, Write 1 0x12, Isr, Write 2 0x34, Leave, Isr]
      = Enter # [Write 1 0x12, Write 2 0x34] @ [Leave]
   \<and> is_write (Write 1 0x12) \<and> is_write (Write 2 0x34)
   \<and> set16Bit_events 1 0x1234 = Enter # [Write 1 0x12, Write 2 0x34] @ [Leave]
   \<and> run_schedule [Isr, Enter, Write 1 0x12, Isr, Write 2 0x34, Leave, Isr] engine0
       = run_schedule [Isr, Enter, Write 1 0x12, Write 2 0x34, Leave, Isr] engine0
   \<and> (\<exists>e. run_schedule [Isr, Enter, Write 1 0x12, Isr, Write 2 0x34, Leave, Isr] engine0 = Inr e
         \<and> outputBuf' (inst e) = (replicate 513 0)[1 := 0x12, 2 := 0x34]
         \<and> pushed e = [0, 0x12])"
proof -
  let ?sched = "[Isr, Enter, Write 1 0x12, Isr, Write 2 0x34, Leave, Isr]"
  let ?ws = "[Write 1 0x12, Write 2 0x34]"
  have f: "filter (\<lambda>x. x \<noteq> Isr) ?sched = Enter # ?ws @ [Leave]" by simp
  have w: "\<forall>x\<in>set ?ws. is_write x" by simp
  have kn: "length (takeWhile (\<lambda>x. x = Isr) ?sched) = 1"
    "length (takeWhile (\<lambda>x. x = Isr) (rev ?sched)) = 1"
    by simp_all
  note atomic = critical_section_atomic [OF f w, of engine0, unfolded kn]
  have serial: "run_schedule ?sched engine0
       = run_schedule [Isr, Enter, Write 1 0x12, Write 2 0x34, Leave, Isr] engine0"
    using atomic [THEN conjunct1] by simp
  have "\<exists>e. run_schedule ?sched engine0 = Inr e
         \<and> outputBuf' (inst e) = (replicate 513 0)[1 := 0x12, 2 := 0x34]
         \<and> pushed e = [0, 0x12]"
    using atomic [THEN conjunct2, rule_format, OF conjI [OF engine0_inst(1) conjI [OF engine0_inst(3)]]]
      engine0_write engine0_inst
    by (simp add: Let_def buffer_1234)
  then show ?thesis
    using f serial set16Bit_events_1234 by simp
qed

text \<open>
  The claim as the spec has it fails on \<open>engine0\<close>: after two handler runs,
  \<open>set16Bit(1, 0x1234)\<close> and one more handler run, the packet holds 0x00 in slot 1 and 0x34
  in slot 2. The buffer held 0x00, 0x00 there before the write and 0x12, 0x34 after it.
\<close>

theorem torn_16bit_value_counterexample:
  "set16Bit_events 1 0x1234 = [Enter, Write 1 0x12, Write 2 0x34, Leave]
   \<and> take 3 (outputBuf' (inst engine0)) = [0, 0, 0]
   \<and> torn_run = Inr ([0, 0, 0x34], [0, 0x12, 0x34])"
proof -
  have a: "run_schedule [Isr, Isr] engine0 =
      Inr (engine0\<lparr>inst := (inst engine0)\<lparr>outputBufIndex' := 2\<rparr>, pushed := [0, 0]\<rparr>)"
    using run_schedule_isrs [OF engine0_inst(1) engine0_inst(3), where k = 2] engine0_inst
    by (simp add: numeral_2_eq_2 buffer_1234)
  have b: "run_schedule [Enter, Write 1 0x12, Write 2 0x34, Leave]
        (engine0\<lparr>inst := (inst engine0)\<lparr>outputBufIndex' := 2\<rparr>, pushed := [0, 0]\<rparr>) =
     Inr (engine0\<lparr>inst := (inst engine0)\<lparr>outputBuf' := (replicate 513 0)[1 := 0x12, 2 := 0x34],
            calls := calls (inst engine0)
               @ [HandlerSetIRQsEnabled False, HandlerSetIRQsEnabled True],
            outputBufIndex' := 2\<rparr>, pushed := [0, 0]\<rparr>)"
    using engine0_inst
    by (simp add: disableIRQs_def enableIRQs_def handler_call_def store_def)
  have c: "run_schedule [Isr]
        (engine0\<lparr>inst := (inst engine0)\<lparr>outputBuf' := (replicate 513 0)[1 := 0x12, 2 := 0x34],
            calls := calls (inst engine0)
               @ [HandlerSetIRQsEnabled False, HandlerSetIRQsEnabled True],
            outputBufIndex' := 2\<rparr>, pushed := [0, 0]\<rparr>) =
     Inr (engine0\<lparr>inst := (inst engine0)\<lparr>outputBuf' := (replicate 513 0)[1 := 0x12, 2 := 0x34],
            calls := calls (inst engine0)
               @ [HandlerSetIRQsEnabled False, HandlerSetIRQsEnabled True],
            outputBufIndex' := 3\<rparr>, pushed := [0, 0, 0x34]\<rparr>)"
    using engine0_inst by (simp add: isr_def Let_def)
  have "run_schedule ([Isr, Isr] @ [Enter, Write 1 0x12, Write 2 0x34, Leave] @ [Isr]) engine0 =
     Inr (engine0\<lparr>inst := (inst engine0)\<lparr>outputBuf' := (replicate 513 0)[1 := 0x12, 2 := 0x34],
            calls := calls (inst engine0)
               @ [HandlerSetIRQsEnabled False, HandlerSetIRQsEnabled True],
            outputBufIndex' := 3\<rparr>, pushed := [0, 0, 0x34]\<rparr>)"
    by (simp only: run_schedule_append a b c sum.case)
  then show ?thesis
    by (simp add: torn_run_def set16Bit_events_1234 engine0_inst buffer_1234)
qed

end
